theory Spec2Isabelle
  imports Main "HOL-Library.AList" "HOL-Library.Signed_Division"
begin

section \<open>Timed thread joining over pthreads (mono/metadata/threads-pthread.c)\<close>

text \<open>
  The file implements a joinable-with-timeout thread on top of detached pthreads: every
  spawned thread owns a \<open>ThreadInfo\<close> with an \<open>exiting\<close> flag that the
  thread sets when its start routine has returned, and joiners wait for that flag on a
  condition variable. A process-wide hash table \<open>threads\<close> maps thread ids to
  their \<open>ThreadInfo\<close>.

  Pointers are natural numbers, \<open>0\<close> being \<open>NULL\<close>. The functions of
  the C file are state transformers over a \<open>world\<close>; what the C file takes from
  its environment (the allocator's address, the result of \<open>pthread_create\<close>,
  \<open>pthread_self()\<close>, \<open>time(NULL)\<close>, what \<open>nanosleep\<close> reports,
  and when a blocked waiter is woken) is an explicit argument.
\<close>

subsection \<open>Data\<close>

type_synonym pthread_t = nat
type_synonym addr = nat
type_synonym fnptr = nat

abbreviation (input) NULL :: nat where
  "NULL \<equiv> 0"

text \<open>
  \<open>struct ThreadInfo\<close>. The field \<open>id\<close> is named \<open>id_t\<close> here. The
  mutex and the condition variable have no state of their own in the model: they appear
  as actions of the thread that uses them (see \<open>action\<close>).
\<close>

record ThreadInfo =
  id_t :: pthread_t
  object :: addr
  start_routine :: fnptr
  arg :: addr
  status :: addr
  exiting :: bool

text \<open>The messages passed to \<open>g_warning\<close>, with the error number they print.\<close>

datatype warning =
    Cant_locate_start_method
  | Pthread_create_error int
  | Cant_join_my_own_thread
  | Cant_find_thread_id pthread_t
  | Join_error int
  | Timed_join_error int

text \<open>
  The state the file works on: the \<open>ThreadInfo\<close> objects allocated with
  \<open>g_new0\<close> and not yet freed, the global \<open>threads\<close> table
  (\<open>None\<close> is the \<open>NULL\<close> table; an association list, since
  \<open>g_hash_table_foreach\<close> enumerates it), \<open>main_thread\<close>, the value each
  thread has stored under \<open>timed_thread_key\<close>, and the warnings logged so far.
  Two fields stand for memory the file only reads: \<open>method_ptr\<close> is the
  \<open>method_ptr\<close> field of each delegate object, and \<open>code\<close> is what the
  function behind a function pointer returns for an argument.
\<close>

record world =
  heap :: "addr \<rightharpoonup> ThreadInfo"
  threads :: "(pthread_t \<times> addr) list option"
  main_thread :: addr
  specific :: "pthread_t \<Rightarrow> addr"
  warnings :: "warning list"
  method_ptr :: "addr \<Rightarrow> fnptr"
  code :: "fnptr \<Rightarrow> addr \<Rightarrow> addr"

text \<open>
  A call either returns, never returns (it is blocked in \<open>pthread_cond_wait\<close> for
  good), or aborts (a failed \<open>g_assert\<close>, or a read through a pointer to a freed
  \<open>ThreadInfo\<close>).
\<close>

datatype 'a run = Returns 'a | Blocked | Aborted

definition g_warning :: "warning \<Rightarrow> world \<Rightarrow> world" where
  "g_warning msg w = w\<lparr>warnings := warnings w @ [msg]\<rparr>"

text \<open>A store through a \<open>ThreadInfo *\<close>; a store to freed memory is left out.\<close>

definition store :: "addr \<Rightarrow> (ThreadInfo \<Rightarrow> ThreadInfo) \<Rightarrow> world \<Rightarrow> world" where
  "store p f w = (case heap w p of None \<Rightarrow> w | Some th \<Rightarrow> w\<lparr>heap := (heap w)(p \<mapsto> f th)\<rparr>)"

definition g_free :: "addr \<Rightarrow> world \<Rightarrow> world" where
  "g_free p w = w\<lparr>heap := (heap w)(p := None)\<rparr>"

subsection \<open>Time\<close>

record timespec =
  tv_sec :: int
  tv_nsec :: int

record div_t =
  quot :: int
  rem :: int

text \<open>C's \<open>div\<close>: the quotient truncates towards zero.\<close>

definition div_c :: "int \<Rightarrow> int \<Rightarrow> div_t" where
  "div_c numer denom = \<lparr>quot = numer sdiv denom, rem = numer smod denom\<rparr>"

text \<open>The point in time, or the duration, a \<open>timespec\<close> stands for, in nanoseconds.\<close>

definition timespec_ns :: "timespec \<Rightarrow> int" where
  "timespec_ns t = tv_sec t * 1000000000 + tv_nsec t"

definition ms_ns :: "int \<Rightarrow> int" where
  "ms_ns ms = ms * 1000000"

text \<open>Conversion to \<open>gint32\<close>: two's complement wrap-around.\<close>

definition to_gint32 :: "int \<Rightarrow> int" where
  "to_gint32 x = (x + 2147483648) mod 4294967296 - 2147483648"

definition EINVAL :: int where
  "EINVAL = 22"

definition ETIMEDOUT :: int where
  "ETIMEDOUT = 110"

subsection \<open>The spawned thread\<close>

text \<open>
  What a thread does to a \<open>ThreadInfo\<close>, to its lock and to its own thread-specific
  value, one action per statement of the C code.
\<close>

datatype action =
    Pthread_once
  | Setspecific addr
  | Invoke fnptr addr
  | Mutex_lock addr
  | Store_status addr addr
  | Store_exiting addr bool
  | Store_object addr addr
  | Cond_signal addr
  | Mutex_unlock addr
  | Hash_table_new
  | Hash_table_insert pthread_t addr
  | Pthread_exit

text \<open>
  The table is keyed by the thread id the key pointer points to (\<open>g_int_hash\<close>,
  \<open>g_int_equal\<close>); inserting under a key that is present replaces the value.
\<close>

definition g_hash_table_insert :: "pthread_t \<Rightarrow> addr \<Rightarrow> world \<Rightarrow> world" where
  "g_hash_table_insert key v w =
     (case threads w of
        None \<Rightarrow> w
      | Some tbl \<Rightarrow> w\<lparr>threads := Some (AList.update key v tbl)\<rparr>)"

text \<open>
  What each action does to the world. \<open>Hash_table_new\<close> is the statement
  \<^verbatim>\<open>if(threads==NULL) threads=g_hash_table_new(g_int_hash, g_int_equal);\<close>
  Taking and releasing the mutex, signalling, \<open>pthread_once\<close> and the call of the
  start routine change nothing the file's functions read.
\<close>

fun exec :: "pthread_t \<Rightarrow> action \<Rightarrow> world \<Rightarrow> world" where
  "exec self Pthread_once w = w"
| "exec self (Setspecific v) w = w\<lparr>specific := (specific w)(self := v)\<rparr>"
| "exec self (Invoke f a) w = w"
| "exec self (Mutex_lock p) w = w"
| "exec self (Store_status p v) w = store p (\<lambda>th. th\<lparr>status := v\<rparr>) w"
| "exec self (Store_exiting p b) w = store p (\<lambda>th. th\<lparr>exiting := b\<rparr>) w"
| "exec self (Store_object p v) w = store p (\<lambda>th. th\<lparr>object := v\<rparr>) w"
| "exec self (Cond_signal p) w = w"
| "exec self (Mutex_unlock p) w = w"
| "exec self Hash_table_new w =
     (case threads w of None \<Rightarrow> w\<lparr>threads := Some []\<rparr> | Some tbl \<Rightarrow> w)"
| "exec self (Hash_table_insert key v) w = g_hash_table_insert key v w"
| "exec self Pthread_exit w = w"

definition perform :: "pthread_t \<Rightarrow> action list \<Rightarrow> world \<Rightarrow> world" where
  "perform self acts w = foldl (\<lambda>w' a. exec self a w') w acts"

text \<open>
  \<open>timed_thread_exit(status)\<close>, run by thread \<open>self\<close>: the actions it takes and
  the world they leave.
\<close>

definition timed_thread_exit :: "pthread_t \<Rightarrow> addr \<Rightarrow> world \<Rightarrow> action list \<times> world" where
  "timed_thread_exit self st w =
     (let thread = specific w self;
          acts = (if thread = NULL then [Pthread_exit]
                  else [Mutex_lock thread,
                        Store_status thread st,
                        Store_exiting thread True,
                        Cond_signal thread,
                        Mutex_unlock thread,
                        Pthread_exit])
      in (acts, perform self acts w))"

text \<open>
  \<open>timed_thread_start_routine(args)\<close>, the routine every spawned thread runs. The
  start routine is opaque: \<open>code w f a\<close> is what it returns. A thread whose
  \<open>args\<close> point to freed memory goes no further than its first two actions here
  (what the C code reads there is undefined).
\<close>

definition timed_thread_start_routine :: "pthread_t \<Rightarrow> addr \<Rightarrow> world \<Rightarrow> action list \<times> world" where
  "timed_thread_start_routine self args w =
     (let thread = args;
          acts1 = [Pthread_once, Setspecific thread];
          w1 = perform self acts1 w
      in case heap w1 thread of
           None \<Rightarrow> (acts1, w1)
         | Some th \<Rightarrow>
             (let f = start_routine th;
                  a = arg th;
                  r = code w1 f a;
                  (acts2, w2) = timed_thread_exit self r w1
              in (acts1 @ [Invoke f a] @ acts2, w2)))"

subsection \<open>Waiting\<close>

text \<open>
  A blocked waiter returns from \<open>pthread_cond_wait\<close> or
  \<open>pthread_cond_timedwait\<close> when the environment wakes it. A \<open>wake\<close> gives the
  time of the wake-up (nanoseconds since the epoch), the value the wait returns (0, or an
  error number), and the spawned threads (thread id and \<open>ThreadInfo\<close>) that ran
  \<open>timed_thread_start_routine\<close> to its end while the waiter was blocked. The list
  of wakes is everything that will ever wake the waiter: when it is used up, an untimed
  wait never returns.

  The waiter holds \<open>join_mutex\<close> except while it is blocked in a wait, and
  \<open>timed_thread_exit\<close> stores to the \<open>ThreadInfo\<close> only with that mutex
  held: what a spawned thread stores becomes visible to the waiter at a wake.
\<close>

record wake =
  wake_at :: int
  wake_ret :: int
  wake_ran :: "(pthread_t \<times> addr) list"

definition run_threads :: "(pthread_t \<times> addr) list \<Rightarrow> world \<Rightarrow> world" where
  "run_threads ts w = foldl (\<lambda>w' (self, args). snd (timed_thread_start_routine self args w')) w ts"

definition pthread_cond_wait :: "world \<Rightarrow> wake list \<Rightarrow> (int \<times> world \<times> wake list) option" where
  "pthread_cond_wait w sched =
     (case sched of
        [] \<Rightarrow> None
      | e # rest \<Rightarrow> Some (wake_ret e, run_threads (wake_ran e) w, rest))"

text \<open>
  The timed wait returns \<open>EINVAL\<close> for a \<open>timespec\<close> whose nanoseconds are
  out of range, and \<open>ETIMEDOUT\<close> when nothing wakes the waiter before the absolute
  time \<open>abstime\<close>.
\<close>

definition pthread_cond_timedwait :: "timespec \<Rightarrow> world \<Rightarrow> wake list \<Rightarrow> int \<times> world \<times> wake list" where
  "pthread_cond_timedwait abstime w sched =
     (if tv_nsec abstime < 0 \<or> 1000000000 \<le> tv_nsec abstime then (EINVAL, w, sched)
      else case sched of
        [] \<Rightarrow> (ETIMEDOUT, w, [])
      | e # rest \<Rightarrow>
          if wake_at e < timespec_ns abstime then (wake_ret e, run_threads (wake_ran e) w, rest)
          else (ETIMEDOUT, w, sched))"

lemma pthread_cond_wait_shorter:
  "pthread_cond_wait w sched = Some (r, w', sched') \<Longrightarrow> length sched' < length sched"
  by (auto simp: pthread_cond_wait_def split: list.splits)

lemma pthread_cond_timedwait_shorter:
  "pthread_cond_timedwait t w sched = (r, w', sched') \<Longrightarrow>
     length sched' < length sched \<or> (sched' = sched \<and> r \<noteq> 0)"
  by (auto simp: pthread_cond_timedwait_def EINVAL_def ETIMEDOUT_def split: list.splits if_splits)

text \<open>
  The loop of \<open>timed_thread_join\<close>:
  \<^verbatim>\<open>while(result == 0 && !thread->exiting) { result = wait...; }\<close>
\<close>

function wait_loop ::
  "addr \<Rightarrow> timespec option \<Rightarrow> int \<Rightarrow> world \<Rightarrow> wake list \<Rightarrow> (int \<times> world \<times> wake list) run" where
  "wait_loop thread timeout result w sched =
     (case heap w thread of
        None \<Rightarrow> Aborted
      | Some th \<Rightarrow>
          if result = 0 \<and> \<not> exiting th then
            (case timeout of
               None \<Rightarrow>
                 (case pthread_cond_wait w sched of
                    None \<Rightarrow> Blocked
                  | Some (r, w', sched') \<Rightarrow> wait_loop thread timeout r w' sched')
             | Some abstime \<Rightarrow>
                 (case pthread_cond_timedwait abstime w sched of
                    (r, w', sched') \<Rightarrow> wait_loop thread timeout r w' sched'))
          else Returns (result, w, sched))"
  by pat_completeness auto
termination
proof (relation "measure (\<lambda>(thread, timeout, result, w, sched). 2 * length sched + (if result = 0 then 1 else 0))", goal_cases)
  case 1
  show ?case by simp
next
  case (2 thread timeout result w sched th x2 r y w' sched')
  then show ?case
    using pthread_cond_wait_shorter [of w sched r w' sched'] by auto
next
  case (3 thread timeout result w sched th abstime r y w' sched')
  then have eq: "pthread_cond_timedwait abstime w sched = (r, w', sched')"
    by simp
  have res: "result = 0"
    using 3 by simp
  show ?case
    using pthread_cond_timedwait_shorter [OF eq] res by (auto simp: eq)
qed

declare wait_loop.simps [simp del]

text \<open>
  \<open>timed_thread_join(thread, timeout, status)\<close>. \<open>timeout\<close> is \<open>None\<close>
  for a \<open>NULL\<close> pointer; \<open>want_status\<close> says that \<open>status\<close> is not
  \<open>NULL\<close>, and the second component of the result is what is then written to it.
\<close>

definition timed_thread_join ::
  "addr \<Rightarrow> timespec option \<Rightarrow> bool \<Rightarrow> world \<Rightarrow> wake list \<Rightarrow> (int \<times> addr option \<times> world \<times> wake list) run" where
  "timed_thread_join thread timeout want_status w sched =
     (case wait_loop thread timeout 0 w sched of
        Blocked \<Rightarrow> Blocked
      | Aborted \<Rightarrow> Aborted
      | Returns (result, w', sched') \<Rightarrow>
          (case heap w' thread of
             None \<Rightarrow> Aborted
           | Some th \<Rightarrow>
               Returns (result,
                        if result = 0 \<and> exiting th \<and> want_status then Some (status th) else None,
                        w', sched')))"

subsection \<open>The registry\<close>

definition g_hash_table_lookup :: "(pthread_t \<times> addr) list \<Rightarrow> pthread_t \<Rightarrow> addr" where
  "g_hash_table_lookup tbl key = (case map_of tbl key of None \<Rightarrow> NULL | Some v \<Rightarrow> v)"

text \<open>\<open>delete_thread\<close>: both assertions, then the entry keyed by \<open>thread->id\<close> goes and the object is freed.\<close>

definition delete_thread :: "addr \<Rightarrow> world \<Rightarrow> world run" where
  "delete_thread thread w =
     (case threads w of
        None \<Rightarrow> Aborted
      | Some tbl \<Rightarrow>
          if thread = NULL then Aborted
          else (case heap w thread of
                  None \<Rightarrow> Aborted
                | Some th \<Rightarrow> Returns (g_free thread (w\<lparr>threads := Some (AList.delete (id_t th) tbl)\<rparr>))))"

text \<open>The deadline \<open>Thread_Join_internal\<close> builds from \<open>time(NULL)\<close> and \<open>ms\<close>.\<close>

definition join_timeout :: "int \<Rightarrow> int \<Rightarrow> timespec" where
  "join_timeout now ms =
     (let divvy = div_c ms 1000
      in \<lparr>tv_sec = now + quot divvy, tv_nsec = rem divvy * 1000\<rparr>)"

text \<open>
  \<open>ves_icall_System_Threading_Thread_Join_internal(this, ms, tid)\<close>, called by thread
  \<open>myid\<close> when \<open>time(NULL)\<close> is \<open>now\<close>.
\<close>

definition Thread_Join_internal ::
  "pthread_t \<Rightarrow> int \<Rightarrow> addr \<Rightarrow> int \<Rightarrow> pthread_t \<Rightarrow> world \<Rightarrow> wake list \<Rightarrow> (bool \<times> world \<times> wake list) run" where
  "Thread_Join_internal myid now this ms tid w sched =
     (if myid = tid then Returns (False, g_warning Cant_join_my_own_thread w, sched)
      else
        let thread = (case threads w of
                        Some tbl \<Rightarrow> g_hash_table_lookup tbl tid
                      | None \<Rightarrow> NULL)
        in if thread = NULL then Returns (False, g_warning (Cant_find_thread_id tid) w, sched)
           else if ms = 0 then
             (case timed_thread_join thread None False w sched of
                Blocked \<Rightarrow> Blocked
              | Aborted \<Rightarrow> Aborted
              | Returns (ret, st, w', sched') \<Rightarrow>
                  if ret = 0 then
                    (case delete_thread thread w' of
                       Returns w'' \<Rightarrow> Returns (True, w'', sched')
                     | Blocked \<Rightarrow> Blocked
                     | Aborted \<Rightarrow> Aborted)
                  else Returns (False, g_warning (Join_error ret) w', sched'))
           else
             (let timeout = join_timeout now ms
              in case timed_thread_join thread (Some timeout) False w sched of
                   Blocked \<Rightarrow> Blocked
                 | Aborted \<Rightarrow> Aborted
                 | Returns (ret, st, w', sched') \<Rightarrow>
                     if ret = 0 then
                       (case delete_thread thread w' of
                          Returns w'' \<Rightarrow> Returns (True, w'', sched')
                        | Blocked \<Rightarrow> Blocked
                        | Aborted \<Rightarrow> Aborted)
                     else Returns (False,
                                   if ret \<noteq> ETIMEDOUT then g_warning (Timed_join_error ret) w' else w',
                                   sched')))"

subsection \<open>Starting a thread\<close>

text \<open>
  \<open>timed_thread_create\<close>. \<open>p\<close> is the address \<open>g_new0\<close> returns;
  \<open>created\<close> is what \<open>pthread_create\<close> does: its result, and the id it
  stores in \<open>thread->id\<close> when the result is 0. The result is the return value, the
  pointer stored in \<open>*threadp\<close> (nothing is stored on failure), and the new world.
  Initialising the mutex and the condition variable and detaching the new thread leave
  no trace in the world.
\<close>

definition timed_thread_create ::
  "addr \<Rightarrow> int \<times> pthread_t \<Rightarrow> fnptr \<Rightarrow> addr \<Rightarrow> world \<Rightarrow> int \<times> addr \<times> world" where
  "timed_thread_create p created start_routine' arg' w =
     (let thread = p;
          th = \<lparr>id_t = 0, object = NULL, start_routine = start_routine', arg = arg',
                status = NULL, exiting = False\<rparr>;
          w1 = w\<lparr>heap := (heap w)(thread \<mapsto> th)\<rparr>;
          result = fst created
      in if result \<noteq> 0 then (result, NULL, g_free thread w1)
         else (0, thread, store thread (\<lambda>th. th\<lparr>id_t := snd created\<rparr>) w1))"

text \<open>
  What \<open>Thread_Start_internal\<close> does to the new \<open>ThreadInfo\<close> once
  \<open>timed_thread_create\<close> has returned, as actions of the starting thread.
\<close>

definition start_after_create :: "addr \<Rightarrow> pthread_t \<Rightarrow> addr \<Rightarrow> action list" where
  "start_after_create thread tid this =
     [Hash_table_new, Store_object thread this, Hash_table_insert tid thread]"

text \<open>
  \<open>ves_icall_System_Threading_Thread_Start_internal(this, start)\<close>, called by thread
  \<open>self\<close>. (The case \<open>None\<close> after a successful
  \<open>timed_thread_create\<close> does not arise: \<open>thread\<close> has just been
  allocated.)
\<close>

definition Thread_Start_internal ::
  "pthread_t \<Rightarrow> addr \<Rightarrow> int \<times> pthread_t \<Rightarrow> addr \<Rightarrow> addr \<Rightarrow> world \<Rightarrow> pthread_t \<times> world" where
  "Thread_Start_internal self p created this start w =
     (let start_func = method_ptr w start
      in if start_func = NULL then (0, g_warning Cant_locate_start_method w)
         else
           (case timed_thread_create p created start_func NULL w of
              (ret, thread, w1) \<Rightarrow>
                if ret \<noteq> 0 then (0, g_warning (Pthread_create_error ret) w1)
                else
                  (case heap w1 thread of
                     None \<Rightarrow> (0, w1)
                   | Some th \<Rightarrow>
                       (id_t th, perform self (start_after_create thread (id_t th) this) w1))))"

subsection \<open>Sleeping, the current thread, cleanup\<close>

definition sleep_request :: "int \<Rightarrow> timespec" where
  "sleep_request ms =
     (let divvy = div_c ms 1000
      in \<lparr>tv_sec = quot divvy, tv_nsec = rem divvy * 1000\<rparr>)"

text \<open>
  \<open>ves_icall_System_Threading_Thread_Sleep_internal(ms)\<close>. \<open>nanosleep\<close> is the
  system call: for the request it returns its result and the remaining time it stores in
  \<open>rem\<close>.
\<close>

definition Thread_Sleep_internal :: "(timespec \<Rightarrow> int \<times> timespec) \<Rightarrow> int \<Rightarrow> int" where
  "Thread_Sleep_internal nanosleep ms =
     (let req = sleep_request ms;
          (ret, rem') = nanosleep req
      in if ret < 0 then
           (let rems = to_gint32 (tv_sec rem' * 1000 + tv_nsec rem' sdiv 1000) in rems)
         else 0)"

text \<open>
  \<open>nanosleep\<close> as POSIX describes it, when a signal handler interrupts the calling
  thread \<open>elapsed\<close> nanoseconds after the call (\<open>None\<close>: no signal arrives).
\<close>

definition ns_timespec :: "int \<Rightarrow> timespec" where
  "ns_timespec n = \<lparr>tv_sec = n div 1000000000, tv_nsec = n mod 1000000000\<rparr>"

definition nanosleep_posix :: "int option \<Rightarrow> timespec \<Rightarrow> timespec \<Rightarrow> int \<times> timespec" where
  "nanosleep_posix interrupt rem0 req =
     (if tv_sec req < 0 \<or> tv_nsec req < 0 \<or> 1000000000 \<le> tv_nsec req then (- 1, rem0)
      else case interrupt of
        None \<Rightarrow> (0, rem0)
      | Some elapsed \<Rightarrow>
          if elapsed < timespec_ns req then (- 1, ns_timespec (timespec_ns req - max elapsed 0))
          else (0, rem0))"

definition Thread_CurrentThread_internal :: "pthread_t \<Rightarrow> world \<Rightarrow> addr run" where
  "Thread_CurrentThread_internal tid w =
     (let thread_info = (case threads w of
                           Some tbl \<Rightarrow> g_hash_table_lookup tbl tid
                         | None \<Rightarrow> NULL)
      in if thread_info = NULL then Returns (main_thread w)
         else (case heap w thread_info of
                 None \<Rightarrow> Aborted
               | Some th \<Rightarrow> Returns (object th)))"

text \<open>
  \<open>g_hash_table_foreach(threads, join_all_threads, NULL)\<close>: the callback joins with
  no timeout and drops the result.
\<close>

fun join_all_threads :: "(pthread_t \<times> addr) list \<Rightarrow> world \<Rightarrow> wake list \<Rightarrow> (world \<times> wake list) run" where
  "join_all_threads [] w sched = Returns (w, sched)"
| "join_all_threads ((key, thread_info) # entries) w sched =
     (case timed_thread_join thread_info None False w sched of
        Blocked \<Rightarrow> Blocked
      | Aborted \<Rightarrow> Aborted
      | Returns (ret, st, w', sched') \<Rightarrow> join_all_threads entries w' sched')"

text \<open>
  \<open>g_hash_table_foreach_remove(threads, free_all_threadinfo, NULL)\<close>: the callback
  frees the value and has the entry removed.
\<close>

fun free_all_threadinfo :: "(pthread_t \<times> addr) list \<Rightarrow> world \<Rightarrow> world" where
  "free_all_threadinfo [] w = w\<lparr>threads := Some []\<rparr>"
| "free_all_threadinfo ((key, v) # entries) w = free_all_threadinfo entries (g_free v w)"

definition mono_thread_cleanup :: "world \<Rightarrow> wake list \<Rightarrow> (world \<times> wake list) run" where
  "mono_thread_cleanup w sched =
     (case threads w of
        None \<Rightarrow> Returns (w, sched)
      | Some tbl \<Rightarrow>
          (case join_all_threads tbl w sched of
             Blocked \<Rightarrow> Blocked
           | Aborted \<Rightarrow> Aborted
           | Returns (w1, sched1) \<Rightarrow>
               (let w2 = free_all_threadinfo tbl w1;
                    w3 = w2\<lparr>threads := None\<rparr>
                in Returns (w3, sched1))))"

subsection \<open>Auxiliary notions\<close>

text \<open>The effect of a spawned thread's whole run, in closed form (see \<open>timed_thread_start_routine_effect\<close>).\<close>

definition thread_effect :: "pthread_t \<Rightarrow> addr \<Rightarrow> world \<Rightarrow> world" where
  "thread_effect self args w =
     (case heap w args of
        None \<Rightarrow> w\<lparr>specific := (specific w)(self := args)\<rparr>
      | Some th \<Rightarrow>
          if args = NULL then w\<lparr>specific := (specific w)(self := args)\<rparr>
          else w\<lparr>specific := (specific w)(self := args),
                 heap := (heap w)(args \<mapsto> th\<lparr>status := code w (start_routine th) (arg th), exiting := True\<rparr>)\<rparr>)"

text \<open>
  What running spawned threads can do to a \<open>ThreadInfo\<close>: nothing but store the
  status and raise \<open>exiting\<close>.
\<close>

definition exits_only :: "ThreadInfo option \<Rightarrow> ThreadInfo option \<Rightarrow> bool" where
  "exits_only a b =
     (case a of
        None \<Rightarrow> b = None
      | Some th \<Rightarrow>
          (case b of
             None \<Rightarrow> False
           | Some th' \<Rightarrow> id_t th' = id_t th \<and> object th' = object th
                \<and> start_routine th' = start_routine th \<and> arg th' = arg th
                \<and> (exiting th \<longrightarrow> exiting th')))"

text \<open>The world after the threads of the given wakes have run.\<close>

definition run_wakes :: "wake list \<Rightarrow> world \<Rightarrow> world" where
  "run_wakes es w = foldl (\<lambda>w' e. run_threads (wake_ran e) w') w es"

subsection \<open>Examples\<close>

text \<open>
  One thread, id 7, registered with its \<open>ThreadInfo\<close> at address 10 and still
  running; a wake that runs nobody, and a wake during which thread 7 has run to its end.
\<close>

definition example_thread :: ThreadInfo where
  "example_thread = \<lparr>id_t = 7, object = 100, start_routine = 50, arg = NULL, status = NULL, exiting = False\<rparr>"

definition example_world :: world where
  "example_world = \<lparr>heap = [10 \<mapsto> example_thread], threads = Some [(7, 10)], main_thread = 1,
     specific = (\<lambda>t. NULL), warnings = [], method_ptr = (\<lambda>d. if d = 200 then 50 else NULL),
     code = (\<lambda>f a. if f = 50 \<and> a = NULL then 99 else 0)\<rparr>"

definition spurious_wake :: "int \<Rightarrow> wake" where
  "spurious_wake t = \<lparr>wake_at = t, wake_ret = 0, wake_ran = []\<rparr>"

definition exit_wake :: "int \<Rightarrow> wake" where
  "exit_wake t = \<lparr>wake_at = t, wake_ret = 0, wake_ran = [(7, 10)]\<rparr>"

text \<open>
  The world before any thread is started, the world right after
  \<open>timed_thread_create\<close> has spawned thread 7 from it, and one way the spawned
  thread (7) and the starting thread (1) can take turns after that.
\<close>

definition initial_world :: world where
  "initial_world = \<lparr>heap = Map.empty, threads = None, main_thread = 1,
     specific = (\<lambda>t. NULL), warnings = [], method_ptr = (\<lambda>d. if d = 200 then 50 else NULL),
     code = (\<lambda>f a. if f = 50 \<and> a = NULL then 99 else 0)\<rparr>"

definition created_world :: world where
  "created_world = snd (snd (timed_thread_create 10 (0, 7) 50 NULL initial_world))"

definition example_trace :: "(pthread_t \<times> action) list" where
  "example_trace =
     [(7, Pthread_once), (7, Setspecific 10), (7, Invoke 50 NULL),
      (1, Hash_table_new), (1, Store_object 10 100), (1, Hash_table_insert 7 10),
      (7, Mutex_lock 10), (7, Store_status 10 99), (7, Store_exiting 10 True),
      (7, Cond_signal 10), (7, Mutex_unlock 10), (7, Pthread_exit)]"

subsection \<open>Traces\<close>

text \<open>
  Two threads that run at the same time take their actions in some interleaving, each
  in its program order. The predicates below say which actions store to a field of the
  \<open>ThreadInfo\<close> at \<open>p\<close>, and which of these are the stores of
  \<open>timed_thread_exit\<close>.
\<close>

inductive interleaving :: "'a list \<Rightarrow> 'a list \<Rightarrow> 'a list \<Rightarrow> bool" where
  Nil: "interleaving [] [] []"
| Left: "interleaving xs ys zs \<Longrightarrow> interleaving (x # xs) ys (x # zs)"
| Right: "interleaving xs ys zs \<Longrightarrow> interleaving xs (y # ys) (y # zs)"

fun handle_store :: "addr \<Rightarrow> action \<Rightarrow> bool" where
  "handle_store p (Store_status q v) = (q = p)"
| "handle_store p (Store_exiting q b) = (q = p)"
| "handle_store p (Store_object q v) = (q = p)"
| "handle_store p a = False"

fun exit_store :: "addr \<Rightarrow> action \<Rightarrow> bool" where
  "exit_store p (Store_status q v) = (q = p)"
| "exit_store p (Store_exiting q b) = (q = p)"
| "exit_store p a = False"

fun exiting_store :: "addr \<Rightarrow> action \<Rightarrow> bool" where
  "exiting_store p (Store_exiting q b) = (q = p)"
| "exiting_store p a = False"

fun is_Invoke :: "action \<Rightarrow> bool" where
  "is_Invoke (Invoke f a) = True"
| "is_Invoke a = False"

text \<open>Whether a thread that has taken the given actions holds the mutex of \<open>p\<close>.\<close>

definition holds_mutex :: "addr \<Rightarrow> action list \<Rightarrow> bool" where
  "holds_mutex p acts =
     foldl (\<lambda>held a. if a = Mutex_lock p then True else if a = Mutex_unlock p then False else held)
       False acts"

text \<open>The part of a trace that follows the first call of a start routine.\<close>

definition after_invoke :: "(pthread_t \<times> action) list \<Rightarrow> (pthread_t \<times> action) list" where
  "after_invoke tr = tl (dropWhile (\<lambda>x. \<not> is_Invoke (snd x)) tr)"

definition only_exit_stores_after_invoke :: "addr \<Rightarrow> (pthread_t \<times> action) list \<Rightarrow> bool" where
  "only_exit_stores_after_invoke p tr =
     list_all (\<lambda>x. handle_store p (snd x) \<longrightarrow> exit_store p (snd x)) (after_invoke tr)"

section \<open>Properties\<close>

subsection \<open>Milliseconds and the \<open>timespec\<close> built from them\<close>

lemma sleep_request_ns:
  "timespec_ns (sleep_request ms) = (ms sdiv 1000) * 1000000000 + (ms smod 1000) * 1000"
  by (simp add: sleep_request_def div_c_def timespec_ns_def)

lemma join_timeout_ns:
  "timespec_ns (join_timeout now ms) - now * 1000000000
     = (ms sdiv 1000) * 1000000000 + (ms smod 1000) * 1000"
  by (simp add: join_timeout_def div_c_def timespec_ns_def algebra_simps)

lemma ms_ns_split:
  "ms_ns ms = (ms sdiv 1000) * 1000000000 + (ms smod 1000) * 1000000"
proof -
  have "ms = (ms sdiv 1000) * 1000 + ms smod 1000"
    by (simp add: sdiv_mult_smod_eq)
  then have "ms * 1000000 = ((ms sdiv 1000) * 1000 + ms smod 1000) * 1000000"
    by simp
  then show ?thesis
    unfolding ms_ns_def by (simp add: algebra_simps)
qed

text \<open>
  Both conversions multiply the remainder of the milliseconds by 1000 where a millisecond
  has 1000000 nanoseconds: the \<open>timespec\<close> is the requested time only for a whole
  number of seconds.
\<close>

lemma sleep_request_exact_iff:
  "timespec_ns (sleep_request ms) = ms_ns ms \<longleftrightarrow> ms smod 1000 = 0"
  by (simp add: sleep_request_ns ms_ns_split)

lemma join_timeout_exact_iff:
  "timespec_ns (join_timeout now ms) - now * 1000000000 = ms_ns ms \<longleftrightarrow> ms smod 1000 = 0"
  by (simp add: join_timeout_ns ms_ns_split)

text \<open>
  C4 (sleep requests a wait of exactly \<open>durationMs\<close> milliseconds and, interrupted,
  returns the remaining milliseconds). The code at \<open>ms = 500\<close>: the request handed to
  \<open>nanosleep\<close> is 0 s and 500000 ns, half a millisecond, where 500 ms are 500000000 ns.
  When \<open>nanosleep\<close> reports 200 ms (200000000 ns) left, the function returns 200000; a
  signal 300 ms after the call finds the sleep over, so 0 is returned; the function
  returns 200 when the signal comes after 300 microseconds.
\<close>

theorem Thread_Sleep_internal_500:
  "sleep_request 500 = \<lparr>tv_sec = 0, tv_nsec = 500000\<rparr>
   \<and> timespec_ns (sleep_request 500) = 500000
   \<and> ms_ns 500 = 500000000
   \<and> Thread_Sleep_internal (\<lambda>req. (- 1, \<lparr>tv_sec = 0, tv_nsec = 200000000\<rparr>)) 500 = 200000
   \<and> Thread_Sleep_internal (nanosleep_posix (Some (ms_ns 300)) \<lparr>tv_sec = 0, tv_nsec = 0\<rparr>) 500 = 0
   \<and> Thread_Sleep_internal (nanosleep_posix (Some 300000) \<lparr>tv_sec = 0, tv_nsec = 0\<rparr>) 500 = 200"
  by (simp add: sleep_request_def div_c_def timespec_ns_def ms_ns_def Thread_Sleep_internal_def
      to_gint32_def nanosleep_posix_def ns_timespec_def signed_divide_int_def signed_modulo_int_def)

subsection \<open>The effect of a spawned thread\<close>

lemma store_simps [simp]:
  "threads (store p f w) = threads w"
  "warnings (store p f w) = warnings w"
  "main_thread (store p f w) = main_thread w"
  "specific (store p f w) = specific w"
  "method_ptr (store p f w) = method_ptr w"
  "code (store p f w) = code w"
  "heap (store p f w) q = (if q = p then map_option f (heap w p) else heap w q)"
  by (auto simp: store_def split: option.splits)

lemma timed_thread_start_routine_effect:
  "snd (timed_thread_start_routine self args w) = thread_effect self args w"
  by (auto simp: timed_thread_start_routine_def timed_thread_exit_def perform_def thread_effect_def
      store_def Let_def split: option.splits)

lemma thread_effect_frame [simp]:
  "threads (thread_effect self args w) = threads w"
  "warnings (thread_effect self args w) = warnings w"
  "main_thread (thread_effect self args w) = main_thread w"
  "method_ptr (thread_effect self args w) = method_ptr w"
  "code (thread_effect self args w) = code w"
  by (auto simp: thread_effect_def split: option.splits)

lemma thread_effect_heap:
  "heap (thread_effect self args w) q =
     (if q = args \<and> args \<noteq> NULL
      then map_option (\<lambda>th. th\<lparr>status := code w (start_routine th) (arg th), exiting := True\<rparr>) (heap w q)
      else heap w q)"
  by (auto simp: thread_effect_def split: option.splits)

lemma run_threads_Nil [simp]: "run_threads [] w = w"
  by (simp add: run_threads_def)

lemma run_threads_Cons [simp]:
  "run_threads ((self, args) # ts) w = run_threads ts (thread_effect self args w)"
  by (simp add: run_threads_def timed_thread_start_routine_effect)

lemma run_threads_frame [simp]:
  "threads (run_threads ts w) = threads w"
  "warnings (run_threads ts w) = warnings w"
  "main_thread (run_threads ts w) = main_thread w"
  "method_ptr (run_threads ts w) = method_ptr w"
  "code (run_threads ts w) = code w"
  by (induction ts arbitrary: w; auto)+

lemma run_threads_other:
  "q \<notin> snd ` set ts \<Longrightarrow> heap (run_threads ts w) q = heap w q"
  by (induction ts arbitrary: w) (auto simp: thread_effect_heap)

lemma exits_only_refl [simp]: "exits_only a a"
  by (simp add: exits_only_def split: option.splits)

lemma exits_only_trans: "exits_only a b \<Longrightarrow> exits_only b c \<Longrightarrow> exits_only a c"
  by (auto simp: exits_only_def split: option.splits)

lemma thread_effect_exits_only: "exits_only (heap w q) (heap (thread_effect self args w) q)"
  by (auto simp: thread_effect_heap exits_only_def split: option.splits)

lemma run_threads_exits_only: "exits_only (heap w q) (heap (run_threads ts w) q)"
proof (induction ts arbitrary: w)
  case Nil
  then show ?case by simp
next
  case (Cons t ts)
  obtain self args where t: "t = (self, args)" by (cases t)
  show ?case
    using exits_only_trans [OF thread_effect_exits_only [of w q self args] Cons.IH [of "thread_effect self args w"]]
    by (simp add: t)
qed

lemma run_threads_exits:
  assumes "q \<in> snd ` set ts" and "q \<noteq> NULL" and "heap w q = Some th"
  shows "\<exists>th'. heap (run_threads ts w) q = Some th' \<and> exiting th'"
  using assms
proof (induction ts arbitrary: w th)
  case Nil
  then show ?case by simp
next
  case (Cons t ts)
  obtain self args where t: "t = (self, args)" by (cases t)
  show ?case
  proof (cases "args = q")
    case True
    let ?w = "thread_effect self args w"
    from True Cons.prems obtain th1 where th1: "heap ?w q = Some th1" "exiting th1"
      by (auto simp: thread_effect_heap)
    from run_threads_exits_only [of ?w q ts] th1 show ?thesis
      by (auto simp: t exits_only_def split: option.splits)
  next
    case False
    with Cons.prems t have "q \<in> snd ` set ts" by auto
    moreover from False Cons.prems have "heap (thread_effect self args w) q = Some th"
      by (simp add: thread_effect_heap)
    ultimately show ?thesis
      using Cons.IH [of "thread_effect self args w" th] Cons.prems by (simp add: t)
  qed
qed

lemma run_wakes_Nil [simp]: "run_wakes [] w = w"
  by (simp add: run_wakes_def)

lemma run_wakes_Cons [simp]: "run_wakes (e # es) w = run_wakes es (run_threads (wake_ran e) w)"
  by (simp add: run_wakes_def)

lemma run_wakes_append [simp]: "run_wakes (es @ es') w = run_wakes es' (run_wakes es w)"
  by (simp add: run_wakes_def)

lemma run_wakes_frame [simp]:
  "threads (run_wakes es w) = threads w"
  "warnings (run_wakes es w) = warnings w"
  "main_thread (run_wakes es w) = main_thread w"
  "method_ptr (run_wakes es w) = method_ptr w"
  "code (run_wakes es w) = code w"
  by (induction es arbitrary: w; simp)+

lemma run_wakes_exits_only: "exits_only (heap w q) (heap (run_wakes es w) q)"
proof (induction es arbitrary: w)
  case Nil
  then show ?case by simp
next
  case (Cons e es)
  show ?case
    using exits_only_trans [OF run_threads_exits_only [of w q "wake_ran e"] Cons.IH [of "run_threads (wake_ran e) w"]]
    by simp
qed

lemma run_wakes_other:
  "\<forall>e \<in> set es. q \<notin> snd ` set (wake_ran e) \<Longrightarrow> heap (run_wakes es w) q = heap w q"
  by (induction es arbitrary: w) (auto simp: run_threads_other)

lemma wait_loop_exited:
  "heap w thread = Some th \<Longrightarrow> exiting th \<Longrightarrow> wait_loop thread timeout result w sched = Returns (result, w, sched)"
  by (subst wait_loop.simps) simp

lemma wait_loop_failed:
  "heap w thread = Some th \<Longrightarrow> result \<noteq> 0 \<Longrightarrow> wait_loop thread timeout result w sched = Returns (result, w, sched)"
  by (subst wait_loop.simps) simp

lemma wait_loop_consumes:
  "wait_loop thread timeout result w sched = Returns (r, w', sched') \<Longrightarrow>
     \<exists>consumed. sched = consumed @ sched' \<and> w' = run_wakes consumed w"
proof (induction thread timeout result w sched rule: wait_loop.induct)
  case (1 thread timeout result w sched)
  show ?case
  proof (cases "heap w thread")
    case None
    with "1.prems" show ?thesis by (subst (asm) wait_loop.simps) simp
  next
    case (Some th)
    show ?thesis
    proof (cases "result = 0 \<and> \<not> exiting th")
      case False
      with Some "1.prems" have "w' = w" "sched' = sched"
        by (subst (asm) wait_loop.simps, auto)+
      then show ?thesis by simp
    next
      case True
      show ?thesis
      proof (cases timeout)
        case None
        show ?thesis
        proof (cases sched)
          case Nil
          with None Some True "1.prems" show ?thesis
            by (subst (asm) wait_loop.simps) (simp add: pthread_cond_wait_def)
        next
          case (Cons e rest)
          have pcw: "pthread_cond_wait w sched = Some (wake_ret e, run_threads (wake_ran e) w, rest)"
            by (simp add: pthread_cond_wait_def Cons)
          from "1.prems" have "wait_loop thread timeout (wake_ret e) (run_threads (wake_ran e) w) rest = Returns (r, w', sched')"
            by (subst (asm) wait_loop.simps) (simp add: Some True None pcw)
          from "1.IH"(1) [OF Some True None pcw refl refl this]
          obtain consumed where "rest = consumed @ sched'" "w' = run_wakes consumed (run_threads (wake_ran e) w)"
            by blast
          then have "sched = (e # consumed) @ sched' \<and> w' = run_wakes (e # consumed) w"
            by (simp add: Cons)
          then show ?thesis by blast
        qed
      next
        case Some2: (Some abstime)
        obtain r1 w1 sched1 where ptw: "pthread_cond_timedwait abstime w sched = (r1, w1, sched1)"
          by (cases "pthread_cond_timedwait abstime w sched")
        from "1.prems" have rec: "wait_loop thread timeout r1 w1 sched1 = Returns (r, w', sched')"
          by (subst (asm) wait_loop.simps) (simp add: Some True Some2 ptw)
        from "1.IH"(2) [OF Some True Some2 ptw [symmetric] refl rec]
        obtain consumed where c: "sched1 = consumed @ sched'" "w' = run_wakes consumed w1"
          by blast
        from ptw have "(sched1 = sched \<and> w1 = w) \<or> (\<exists>e. sched = e # sched1 \<and> w1 = run_threads (wake_ran e) w)"
          by (auto simp: pthread_cond_timedwait_def split: if_splits list.splits)
        then show ?thesis
        proof
          assume "sched1 = sched \<and> w1 = w"
          with c show ?thesis by blast
        next
          assume "\<exists>e. sched = e # sched1 \<and> w1 = run_threads (wake_ran e) w"
          then obtain e where "sched = e # sched1" "w1 = run_threads (wake_ran e) w" by blast
          with c have "sched = (e # consumed) @ sched' \<and> w' = run_wakes (e # consumed) w"
            by simp
          then show ?thesis by blast
        qed
      qed
    qed
  qed
qed

subsection \<open>The wait loop\<close>

lemma wait_loop_untimed_step:
  assumes "heap w thread = Some th" and "\<not> exiting th"
  shows "wait_loop thread None 0 w (e # rest)
           = wait_loop thread None (wake_ret e) (run_threads (wake_ran e) w) rest"
  using assms by (subst wait_loop.simps) (simp add: pthread_cond_wait_def)

lemma wait_loop_untimed_empty:
  assumes "heap w thread = Some th" and "\<not> exiting th"
  shows "wait_loop thread None 0 w [] = Blocked"
  using assms by (subst wait_loop.simps) (simp add: pthread_cond_wait_def)

lemma wait_loop_untimed_blocked:
  assumes "heap w thread = Some th" and "\<not> exiting th"
    and "\<forall>e \<in> set sched. wake_ret e = 0 \<and> thread \<notin> snd ` set (wake_ran e)"
  shows "wait_loop thread None 0 w sched = Blocked"
  using assms
proof (induction sched arbitrary: w)
  case Nil
  then show ?case by (simp add: wait_loop_untimed_empty)
next
  case (Cons e rest)
  have "heap (run_threads (wake_ran e) w) thread = Some th"
    using Cons.prems by (simp add: run_threads_other)
  with Cons show ?case
    by (simp add: wait_loop_untimed_step)
qed

lemma wait_loop_untimed_exit:
  assumes "heap w thread = Some th" and "\<not> exiting th" and "thread \<noteq> NULL"
    and "\<forall>e' \<in> set pre. wake_ret e' = 0 \<and> thread \<notin> snd ` set (wake_ran e')"
    and "thread \<in> snd ` set (wake_ran e)"
  shows "wait_loop thread None 0 w (pre @ e # rest)
           = Returns (wake_ret e, run_wakes (pre @ [e]) w, rest)"
  using assms
proof (induction pre arbitrary: w)
  case Nil
  from run_threads_exits [OF Nil(5) Nil(3) Nil(1)]
  obtain th' where "heap (run_threads (wake_ran e) w) thread = Some th'" "exiting th'"
    by blast
  then show ?case
    using Nil by (simp add: wait_loop_untimed_step wait_loop_exited)
next
  case (Cons e' pre)
  have "heap (run_threads (wake_ran e') w) thread = Some th"
    using Cons.prems by (simp add: run_threads_other)
  with Cons show ?case
    by (simp add: wait_loop_untimed_step)
qed

lemma wait_loop_stops:
  "wait_loop thread timeout result w sched = Returns (r, w', sched') \<Longrightarrow>
     \<exists>th'. heap w' thread = Some th' \<and> (r \<noteq> 0 \<or> exiting th')"
proof (induction thread timeout result w sched rule: wait_loop.induct)
  case (1 thread timeout result w sched)
  show ?case
  proof (cases "heap w thread")
    case None
    with "1.prems" show ?thesis by (subst (asm) wait_loop.simps) simp
  next
    case (Some th)
    show ?thesis
    proof (cases "result = 0 \<and> \<not> exiting th")
      case False
      with Some "1.prems" have "w' = w" "r = result"
        by (subst (asm) wait_loop.simps, auto)+
      with False Some show ?thesis by auto
    next
      case True
      show ?thesis
      proof (cases timeout)
        case None
        show ?thesis
        proof (cases "pthread_cond_wait w sched")
          case none: None
          with None Some True "1.prems" show ?thesis
            by (subst (asm) wait_loop.simps) simp
        next
          case some: (Some x)
          obtain r1 w1 sched1 where x: "x = (r1, w1, sched1)" by (cases x)
          from "1.prems" have "wait_loop thread timeout r1 w1 sched1 = Returns (r, w', sched')"
            by (subst (asm) wait_loop.simps) (simp add: Some True None some x)
          from "1.IH"(1) [OF Some True None some [unfolded x] refl refl this] show ?thesis .
        qed
      next
        case Some2: (Some abstime)
        obtain r1 w1 sched1 where ptw: "pthread_cond_timedwait abstime w sched = (r1, w1, sched1)"
          by (cases "pthread_cond_timedwait abstime w sched")
        from "1.prems" have rec: "wait_loop thread timeout r1 w1 sched1 = Returns (r, w', sched')"
          by (subst (asm) wait_loop.simps) (simp add: Some True Some2 ptw)
        from "1.IH"(2) [OF Some True Some2 ptw [symmetric] refl rec] show ?thesis .
      qed
    qed
  qed
qed

lemma wait_loop_untimed_result:
  assumes "wait_loop thread None result w sched = Returns (r, w', sched')"
    and "result = 0" and "\<forall>e \<in> set sched. wake_ret e = 0"
  shows "r = 0"
  using assms
proof (induction sched arbitrary: w result)
  case Nil
  then show ?case
    by (subst (asm) wait_loop.simps) (auto simp: pthread_cond_wait_def split: option.splits if_splits)
next
  case (Cons e rest)
  show ?case
  proof (cases "heap w thread")
    case None
    with Cons.prems show ?thesis by (subst (asm) wait_loop.simps) simp
  next
    case (Some th)
    show ?thesis
    proof (cases "exiting th")
      case True
      with Some Cons.prems show ?thesis by (simp add: wait_loop_exited)
    next
      case False
      with Some Cons.prems
      have "wait_loop thread None (wake_ret e) (run_threads (wake_ran e) w) rest = Returns (r, w', sched')"
        by (simp add: wait_loop_untimed_step)
      with Cons.IH [of "wake_ret e" "run_threads (wake_ran e) w"] Cons.prems show ?thesis
        by simp
    qed
  qed
qed

lemma wait_loop_not_Aborted:
  "heap w thread \<noteq> None \<Longrightarrow> wait_loop thread timeout result w sched \<noteq> Aborted"
proof (induction thread timeout result w sched rule: wait_loop.induct)
  case (1 thread timeout result w sched)
  from "1.prems" obtain th where Some: "heap w thread = Some th" by blast
  have live: "heap (run_threads ts w) thread \<noteq> None" for ts
    using run_threads_exits_only [of w thread ts] Some
    by (auto simp: exits_only_def split: option.splits)
  show ?case
  proof (cases "result = 0 \<and> \<not> exiting th")
    case False
    with Some show ?thesis by (subst wait_loop.simps) auto
  next
    case True
    show ?thesis
    proof (cases timeout)
      case None
      show ?thesis
      proof (cases sched)
        case Nil
        with None Some True show ?thesis
          by (subst wait_loop.simps) (simp add: pthread_cond_wait_def)
      next
        case (Cons e rest)
        have pcw: "pthread_cond_wait w sched = Some (wake_ret e, run_threads (wake_ran e) w, rest)"
          by (simp add: pthread_cond_wait_def Cons)
        from "1.IH"(1) [OF Some True None pcw refl refl live]
        show ?thesis
          by (subst wait_loop.simps) (simp add: Some True None pcw)
      qed
    next
      case Some2: (Some abstime)
      obtain r1 w1 sched1 where ptw: "pthread_cond_timedwait abstime w sched = (r1, w1, sched1)"
        by (cases "pthread_cond_timedwait abstime w sched")
      from ptw have "w1 = w \<or> (\<exists>ts. w1 = run_threads ts w)"
        by (auto simp: pthread_cond_timedwait_def split: if_splits list.splits)
      with live Some have "heap w1 thread \<noteq> None" by auto
      from "1.IH"(2) [OF Some True Some2 ptw [symmetric] refl this]
      show ?thesis
        by (subst wait_loop.simps) (simp add: Some True Some2 ptw)
    qed
  qed
qed

lemma wait_loop_timed_not_Blocked:
  "wait_loop thread (Some abstime) result w sched \<noteq> Blocked"
proof (induction thread "Some abstime" result w sched rule: wait_loop.induct)
  case (1 thread result w sched)
  show ?case
  proof (cases "heap w thread")
    case None
    then show ?thesis by (subst wait_loop.simps) simp
  next
    case (Some th)
    show ?thesis
    proof (cases "result = 0 \<and> \<not> exiting th")
      case False
      with Some show ?thesis by (subst wait_loop.simps) auto
    next
      case True
      obtain r1 w1 sched1 where ptw: "pthread_cond_timedwait abstime w sched = (r1, w1, sched1)"
        by (cases "pthread_cond_timedwait abstime w sched")
      from "1.hyps"(2) [OF Some True refl ptw [symmetric] refl]
      show ?thesis
        by (subst wait_loop.simps) (simp add: Some True ptw)
    qed
  qed
qed

lemma wait_loop_timeout:
  assumes "heap w thread = Some th" and "\<not> exiting th"
    and "0 \<le> tv_nsec abstime" and "tv_nsec abstime < 1000000000"
    and "sched = [] \<or> timespec_ns abstime \<le> wake_at (hd sched)"
  shows "wait_loop thread (Some abstime) 0 w sched = Returns (ETIMEDOUT, w, sched)"
proof -
  have "pthread_cond_timedwait abstime w sched = (ETIMEDOUT, w, sched)"
    using assms by (auto simp: pthread_cond_timedwait_def split: list.splits)
  then show ?thesis
    using assms by (subst wait_loop.simps) (simp add: wait_loop_failed ETIMEDOUT_def)
qed

subsection \<open>Joining\<close>

lemma timed_thread_join_Returns:
  "timed_thread_join thread timeout want_status w sched = Returns (r, st, w', sched') \<Longrightarrow>
     wait_loop thread timeout 0 w sched = Returns (r, w', sched')"
  by (auto simp: timed_thread_join_def split: run.splits option.splits)

lemma timed_thread_join_of_wait_loop:
  "wait_loop thread timeout 0 w sched = Returns (r, w', sched') \<Longrightarrow>
     \<exists>st. timed_thread_join thread timeout want_status w sched = Returns (r, st, w', sched')"
  using wait_loop_stops [of thread timeout 0 w sched r w' sched']
  by (auto simp: timed_thread_join_def)

lemma timed_thread_join_Blocked:
  "wait_loop thread timeout 0 w sched = Blocked \<Longrightarrow>
     timed_thread_join thread timeout want_status w sched = Blocked"
  by (simp add: timed_thread_join_def)

lemma timed_thread_join_exited:
  assumes "heap w thread = Some th" and "exiting th"
  shows "timed_thread_join thread timeout want_status w sched
           = Returns (0, if want_status then Some (status th) else None, w, sched)"
  using assms by (simp add: timed_thread_join_def wait_loop_exited)

lemma g_free_simps [simp]:
  "threads (g_free p w) = threads w"
  "warnings (g_free p w) = warnings w"
  "heap (g_free p w) = (heap w)(p := None)"
  by (simp_all add: g_free_def)

lemma g_warning_simps [simp]:
  "threads (g_warning m w) = threads w"
  "heap (g_warning m w) = heap w"
  "warnings (g_warning m w) = warnings w @ [m]"
  by (simp_all add: g_warning_def)

lemma delete_thread_Returns:
  assumes "threads w = Some tbl" and "p \<noteq> NULL" and "heap w p = Some th"
  shows "delete_thread p w = Returns (g_free p (w\<lparr>threads := Some (AList.delete (id_t th) tbl)\<rparr>))"
  using assms by (simp add: delete_thread_def)

lemma lookup_registered:
  "map_of tbl tid = Some p \<Longrightarrow> g_hash_table_lookup tbl tid = p"
  by (simp add: g_hash_table_lookup_def)

text \<open>Join with \<open>ms = 0\<close>, in terms of the loop.\<close>

lemma Thread_Join_internal_zero_unfold:
  assumes "myid \<noteq> tid" and "threads w = Some tbl" and "map_of tbl tid = Some p" and "p \<noteq> NULL"
  shows "Thread_Join_internal myid now this 0 tid w sched =
     (case wait_loop p None 0 w sched of
        Blocked \<Rightarrow> Blocked
      | Aborted \<Rightarrow> Aborted
      | Returns (r, w', sched') \<Rightarrow>
          if r = 0 then
            (case delete_thread p w' of Returns w'' \<Rightarrow> Returns (True, w'', sched')
             | Blocked \<Rightarrow> Blocked | Aborted \<Rightarrow> Aborted)
          else Returns (False, g_warning (Join_error r) w', sched'))"
proof (cases "wait_loop p None 0 w sched")
  case (Returns x)
  obtain r w' sched' where x: "x = (r, w', sched')" by (cases x)
  from timed_thread_join_of_wait_loop [OF Returns [unfolded x], of False]
  obtain st where "timed_thread_join p None False w sched = Returns (r, st, w', sched')" by blast
  then show ?thesis
    using assms Returns x by (simp add: Thread_Join_internal_def lookup_registered Let_def)
next
  case Blocked
  then show ?thesis
    using assms by (simp add: Thread_Join_internal_def lookup_registered timed_thread_join_Blocked Let_def)
next
  case Aborted
  then show ?thesis
    using assms by (simp add: Thread_Join_internal_def lookup_registered timed_thread_join_def Let_def)
qed

lemma Thread_Join_internal_timed_unfold:
  assumes "myid \<noteq> tid" and "threads w = Some tbl" and "map_of tbl tid = Some p" and "p \<noteq> NULL"
    and "ms \<noteq> 0"
  shows "Thread_Join_internal myid now this ms tid w sched =
     (case wait_loop p (Some (join_timeout now ms)) 0 w sched of
        Blocked \<Rightarrow> Blocked
      | Aborted \<Rightarrow> Aborted
      | Returns (r, w', sched') \<Rightarrow>
          if r = 0 then
            (case delete_thread p w' of Returns w'' \<Rightarrow> Returns (True, w'', sched')
             | Blocked \<Rightarrow> Blocked | Aborted \<Rightarrow> Aborted)
          else Returns (False, if r \<noteq> ETIMEDOUT then g_warning (Timed_join_error r) w' else w', sched'))"
proof (cases "wait_loop p (Some (join_timeout now ms)) 0 w sched")
  case (Returns x)
  obtain r w' sched' where x: "x = (r, w', sched')" by (cases x)
  from timed_thread_join_of_wait_loop [OF Returns [unfolded x], of False]
  obtain st where "timed_thread_join p (Some (join_timeout now ms)) False w sched = Returns (r, st, w', sched')" by blast
  then show ?thesis
    using assms Returns x by (simp add: Thread_Join_internal_def lookup_registered Let_def)
next
  case Blocked
  then show ?thesis
    using assms by (simp add: Thread_Join_internal_def lookup_registered timed_thread_join_Blocked Let_def)
next
  case Aborted
  then show ?thesis
    using assms by (simp add: Thread_Join_internal_def lookup_registered timed_thread_join_def Let_def)
qed

text \<open>A join of a thread that has exited, whatever \<open>ms\<close> is.\<close>

lemma Thread_Join_internal_exited:
  assumes "myid \<noteq> tid" and "threads w = Some tbl" and "map_of tbl tid = Some p" and "p \<noteq> NULL"
    and "heap w p = Some th" and "exiting th"
  shows "Thread_Join_internal myid now this ms tid w sched
           = Returns (True, g_free p (w\<lparr>threads := Some (AList.delete (id_t th) tbl)\<rparr>), sched)"
proof (cases "ms = 0")
  case True
  then show ?thesis
    using assms
    by (simp add: Thread_Join_internal_zero_unfold [OF assms(1-4)] wait_loop_exited delete_thread_Returns)
next
  case False
  then show ?thesis
    using assms
    by (simp add: Thread_Join_internal_timed_unfold [OF assms(1-4) False] wait_loop_exited delete_thread_Returns)
qed

lemma join_timeout_valid:
  assumes "0 < ms"
  shows "0 \<le> tv_nsec (join_timeout now ms) \<and> tv_nsec (join_timeout now ms) < 1000000000"
proof -
  have "ms smod 1000 = ms mod 1000"
    using assms by (simp add: smod_int_alt_def)
  moreover have "0 \<le> ms mod 1000" "ms mod 1000 < 1000"
    by simp_all
  ultimately show ?thesis
    by (simp add: join_timeout_def div_c_def)
qed

lemma thread_effect_exited:
  assumes "heap w p = Some th" and "p \<noteq> NULL"
  shows "\<exists>th'. heap (thread_effect self p w) p = Some th' \<and> exiting th' \<and> id_t th' = id_t th"
  using assms by (simp add: thread_effect_heap)

lemma example_registered:
  "(1::nat) \<noteq> 7" "threads example_world = Some [(7, 10)]" "map_of [(7::nat, 10::nat)] 7 = Some 10"
  "(10::nat) \<noteq> NULL" "heap example_world 10 = Some example_thread" "id_t example_thread = 7"
  "\<not> exiting example_thread"
  by (simp_all add: example_world_def example_thread_def)

text \<open>
  C2: a join whose target is the calling thread's own id fails at once: it returns
  \<open>FALSE\<close> (after the warning), whatever \<open>ms\<close> is, without consuming
  a wake and without touching the registry or any \<open>ThreadInfo\<close>.
\<close>

theorem Thread_Join_internal_self:
  "Thread_Join_internal tid now this ms tid w sched
     = Returns (False, w\<lparr>warnings := warnings w @ [Cant_join_my_own_thread]\<rparr>, sched)"
  by (simp add: Thread_Join_internal_def g_warning_def)

text \<open>
  C8: on a \<open>ThreadInfo\<close> whose thread has exited, \<open>timed_thread_join\<close>
  returns 0 with the recorded status, with or without a deadline, without waiting (no
  wake is consumed) and without changing anything; so a second call, with any other
  deadline and schedule, finds the same \<open>ThreadInfo\<close> and gives the same answer.
\<close>

theorem timed_thread_join_exited_twice:
  assumes "heap w thread = Some th" and "exiting th"
  shows "timed_thread_join thread timeout want_status w sched
           = Returns (0, if want_status then Some (status th) else None, w, sched)
       \<and> (case timed_thread_join thread timeout True w sched of
            Returns (r, st, w', sched') \<Rightarrow>
              timed_thread_join thread timeout' True w' sched'' = Returns (0, st, w', sched'')
          | Blocked \<Rightarrow> False
          | Aborted \<Rightarrow> False)"
  using assms by (simp add: timed_thread_join_exited)

theorem timed_thread_join_exited_twice_witness:
  "timed_thread_join 10 None True (thread_effect 7 10 example_world) [spurious_wake 5]
     = Returns (0, Some 99, thread_effect 7 10 example_world, [spurious_wake 5])
   \<and> timed_thread_join 10 (Some \<lparr>tv_sec = 3, tv_nsec = 0\<rparr>) True (thread_effect 7 10 example_world) []
     = Returns (0, Some 99, thread_effect 7 10 example_world, [])"
proof -
  have h: "heap (thread_effect 7 10 example_world) 10
             = Some (example_thread\<lparr>status := 99, exiting := True\<rparr>)"
    "exiting (example_thread\<lparr>status := 99, exiting := True\<rparr>)"
    by (simp_all add: thread_effect_heap example_world_def example_thread_def)
  from timed_thread_join_exited_twice [OF h, of None True "[spurious_wake 5]" "Some \<lparr>tv_sec = 3, tv_nsec = 0\<rparr>" "[]"]
  show ?thesis
    by (elim conjE) simp
qed

text \<open>
  C1: a join with \<open>ms = 0\<close> of a registered thread other than the caller, when the
  wait itself does not fail (every wake returns 0). Whatever the times of the wakes and
  whatever \<open>time(NULL)\<close> is: (1) when the call returns, it returns \<open>TRUE\<close> and
  the thread has exited by then; (2) while the thread has not exited the call does not
  return, however many wakes come; (3) it returns \<open>TRUE\<close> at the first wake during
  which the thread has exited, consuming no later wake; (4) it returns \<open>TRUE\<close> at
  once when the thread has exited already.
\<close>

theorem Thread_Join_internal_zero_waits:
  assumes "myid \<noteq> tid"
    and "threads w = Some tbl" and "map_of tbl tid = Some p" and "p \<noteq> NULL"
    and "heap w p = Some th"
    and "\<forall>e \<in> set sched. wake_ret e = 0"
  shows
    "(\<forall>b w' sched'. Thread_Join_internal myid now this 0 tid w sched = Returns (b, w', sched') \<longrightarrow>
        b \<and> (\<exists>consumed th'. sched = consumed @ sched'
                \<and> heap (run_wakes consumed w) p = Some th' \<and> exiting th'))
   \<and> (\<not> exiting th \<and> (\<forall>e \<in> set sched. p \<notin> snd ` set (wake_ran e)) \<longrightarrow>
        Thread_Join_internal myid now this 0 tid w sched = Blocked)
   \<and> (\<forall>pre e rest. sched = pre @ e # rest \<and> \<not> exiting th
          \<and> (\<forall>e' \<in> set pre. p \<notin> snd ` set (wake_ran e')) \<and> p \<in> snd ` set (wake_ran e) \<longrightarrow>
        (\<exists>w'. Thread_Join_internal myid now this 0 tid w sched = Returns (True, w', rest)))
   \<and> (exiting th \<longrightarrow>
        (\<exists>w'. Thread_Join_internal myid now this 0 tid w sched = Returns (True, w', sched)))"
proof (intro conjI allI impI)
  fix b w' sched'
  assume ret: "Thread_Join_internal myid now this 0 tid w sched = Returns (b, w', sched')"
  note unf = Thread_Join_internal_zero_unfold [OF assms(1-4), of now this sched]
  from ret unf obtain r w1 where wl: "wait_loop p None 0 w sched = Returns (r, w1, sched')"
    by (auto split: run.splits if_splits)
  from wait_loop_untimed_result [OF wl refl assms(6)] have r: "r = 0" .
  from wait_loop_stops [OF wl] r obtain th' where th': "heap w1 p = Some th'" "exiting th'"
    by auto
  from wait_loop_consumes [OF wl] obtain consumed where c: "sched = consumed @ sched'" "w1 = run_wakes consumed w"
    by blast
  from ret unf wl r show b
    by (auto split: run.splits)
  from c th' show "\<exists>consumed th'. sched = consumed @ sched' \<and> heap (run_wakes consumed w) p = Some th' \<and> exiting th'"
    by blast
next
  assume "\<not> exiting th \<and> (\<forall>e \<in> set sched. p \<notin> snd ` set (wake_ran e))"
  with assms(5,6) have "wait_loop p None 0 w sched = Blocked"
    by (intro wait_loop_untimed_blocked) auto
  then show "Thread_Join_internal myid now this 0 tid w sched = Blocked"
    by (simp add: Thread_Join_internal_zero_unfold [OF assms(1-4)])
next
  fix pre e rest
  assume a: "sched = pre @ e # rest \<and> \<not> exiting th
          \<and> (\<forall>e' \<in> set pre. p \<notin> snd ` set (wake_ran e')) \<and> p \<in> snd ` set (wake_ran e)"
  let ?w1 = "run_wakes (pre @ [e]) w"
  from a assms(6) have e0: "wake_ret e = 0" by simp
  from a assms(6) have pre0: "\<forall>e' \<in> set pre. wake_ret e' = 0 \<and> p \<notin> snd ` set (wake_ran e')"
    by simp
  from a have ne: "\<not> exiting th" and pe: "p \<in> snd ` set (wake_ran e)" and s: "sched = pre @ e # rest"
    by simp_all
  have wl: "wait_loop p None 0 w sched = Returns (wake_ret e, ?w1, rest)"
    unfolding s by (rule wait_loop_untimed_exit [OF assms(5) ne assms(4) pre0 pe])
  from wait_loop_stops [OF wl] e0 obtain th' where th': "heap ?w1 p = Some th'" by auto
  have "threads ?w1 = Some tbl" using assms(2) by simp
  from delete_thread_Returns [OF this assms(4) th'] wl e0
  show "\<exists>w'. Thread_Join_internal myid now this 0 tid w sched = Returns (True, w', rest)"
    by (simp add: Thread_Join_internal_zero_unfold [OF assms(1-4)])
next
  assume "exiting th"
  with Thread_Join_internal_exited [OF assms(1-5)]
  show "\<exists>w'. Thread_Join_internal myid now this 0 tid w sched = Returns (True, w', sched)"
    by simp
qed

theorem Thread_Join_internal_zero_waits_witness:
  "Thread_Join_internal 1 1000 100 0 7 example_world [spurious_wake 5, spurious_wake 6] = Blocked
   \<and> (\<exists>w'. Thread_Join_internal 1 1000 100 0 7 example_world
              [spurious_wake 5, exit_wake 9000000000000, spurious_wake 3] = Returns (True, w', [spurious_wake 3]))"
proof
  have nofail: "\<forall>e \<in> set [spurious_wake 5, spurious_wake 6]. wake_ret e = 0"
    by (simp add: spurious_wake_def)
  from Thread_Join_internal_zero_waits [OF example_registered(1-5) nofail, where now = 1000 and this = 100]
  show "Thread_Join_internal 1 1000 100 0 7 example_world [spurious_wake 5, spurious_wake 6] = Blocked"
    by (simp add: example_registered spurious_wake_def)
next
  let ?sched = "[spurious_wake 5, exit_wake 9000000000000, spurious_wake 3]"
  have nofail: "\<forall>e \<in> set ?sched. wake_ret e = 0"
    by (simp add: spurious_wake_def exit_wake_def)
  from Thread_Join_internal_zero_waits [OF example_registered(1-5) nofail, where now = 1000 and this = 100]
  have "\<forall>pre e rest. ?sched = pre @ e # rest \<and> \<not> exiting example_thread
          \<and> (\<forall>e' \<in> set pre. 10 \<notin> snd ` set (wake_ran e')) \<and> 10 \<in> snd ` set (wake_ran e) \<longrightarrow>
        (\<exists>w'. Thread_Join_internal 1 1000 100 0 7 example_world ?sched = Returns (True, w', rest))"
    by blast
  from this [rule_format, of "[spurious_wake 5]" "exit_wake 9000000000000" "[spurious_wake 3]"]
  show "\<exists>w'. Thread_Join_internal 1 1000 100 0 7 example_world ?sched = Returns (True, w', [spurious_wake 3])"
    by (simp add: example_registered spurious_wake_def exit_wake_def)
qed

text \<open>
  C3: a join with \<open>ms > 0\<close> of a registered thread other than the caller.
  (1) When \<open>timed_thread_join\<close> returns a nonzero result (\<open>ETIMEDOUT\<close> or
  any other error) the call returns \<open>FALSE\<close>, with a warning only for the other
  errors. (2) When nothing wakes the waiter before the deadline, the call returns
  \<open>FALSE\<close> and the world is as before. (3) Whenever the call returns
  \<open>FALSE\<close>, the table is unchanged and the \<open>ThreadInfo\<close> is still
  allocated, and once the thread has run to its end a further join, with any
  \<open>ms\<close>, returns \<open>TRUE\<close> at once, removes the entry and frees the
  \<open>ThreadInfo\<close>.
\<close>

theorem Thread_Join_internal_timed_failure:
  assumes "myid \<noteq> tid"
    and "threads w = Some tbl" and "map_of tbl tid = Some p" and "p \<noteq> NULL"
    and "heap w p = Some th" and "id_t th = tid"
    and "0 < ms"
  shows
    "(\<forall>r st w1 sched1.
        timed_thread_join p (Some (join_timeout now ms)) False w sched = Returns (r, st, w1, sched1) \<and> r \<noteq> 0 \<longrightarrow>
        Thread_Join_internal myid now this ms tid w sched
          = Returns (False, if r \<noteq> ETIMEDOUT then g_warning (Timed_join_error r) w1 else w1, sched1))
   \<and> (\<not> exiting th \<and> (sched = [] \<or> timespec_ns (join_timeout now ms) \<le> wake_at (hd sched)) \<longrightarrow>
        Thread_Join_internal myid now this ms tid w sched = Returns (False, w, sched))
   \<and> (\<forall>w' sched'. Thread_Join_internal myid now this ms tid w sched = Returns (False, w', sched') \<longrightarrow>
        threads w' = Some tbl \<and> exits_only (heap w p) (heap w' p)
        \<and> (\<forall>self now' ms' sched2. \<exists>w3.
              Thread_Join_internal myid now' this ms' tid (snd (timed_thread_start_routine self p w')) sched2
                = Returns (True, w3, sched2)
              \<and> threads w3 = Some (AList.delete tid tbl) \<and> heap w3 p = None))"
proof (intro conjI allI impI)
  from assms(7) have ms: "ms \<noteq> 0" by simp
  note unf = Thread_Join_internal_timed_unfold [OF assms(1-4) ms, of now this sched]
  {
    fix r st w1 sched1
    assume "timed_thread_join p (Some (join_timeout now ms)) False w sched = Returns (r, st, w1, sched1) \<and> r \<noteq> 0"
    then have "wait_loop p (Some (join_timeout now ms)) 0 w sched = Returns (r, w1, sched1)" "r \<noteq> 0"
      by (auto dest: timed_thread_join_Returns)
    then show "Thread_Join_internal myid now this ms tid w sched
          = Returns (False, if r \<noteq> ETIMEDOUT then g_warning (Timed_join_error r) w1 else w1, sched1)"
      by (simp add: unf)
  }
  {
    assume a: "\<not> exiting th \<and> (sched = [] \<or> timespec_ns (join_timeout now ms) \<le> wake_at (hd sched))"
    from join_timeout_valid [OF assms(7), of now] a assms(5)
    have "wait_loop p (Some (join_timeout now ms)) 0 w sched = Returns (ETIMEDOUT, w, sched)"
      by (intro wait_loop_timeout) auto
    then show "Thread_Join_internal myid now this ms tid w sched = Returns (False, w, sched)"
      by (simp add: unf ETIMEDOUT_def)
  }
  fix w' sched'
  assume ret: "Thread_Join_internal myid now this ms tid w sched = Returns (False, w', sched')"
  from ret unf obtain r w1 where wl: "wait_loop p (Some (join_timeout now ms)) 0 w sched = Returns (r, w1, sched')"
    and r: "r \<noteq> 0" and w': "w' = (if r \<noteq> ETIMEDOUT then g_warning (Timed_join_error r) w1 else w1)"
    by (auto split: run.splits if_splits)
  from wait_loop_consumes [OF wl] obtain consumed where c: "w1 = run_wakes consumed w"
    by blast
  from w' c assms(2) show t': "threads w' = Some tbl"
    by simp
  from w' c have h': "heap w' = heap (run_wakes consumed w)"
    by simp
  then show eo: "exits_only (heap w p) (heap w' p)"
    by (simp add: run_wakes_exits_only)
  with assms(5,6) obtain th1 where th1: "heap w' p = Some th1" "id_t th1 = tid"
    by (auto simp: exits_only_def split: option.splits)
  fix self now' ms' sched2
  let ?w2 = "thread_effect self p w'"
  from thread_effect_exited [OF th1(1) assms(4), of self] th1(2)
  obtain th2 where th2: "heap ?w2 p = Some th2" "exiting th2" "id_t th2 = tid"
    by auto
  have t2: "threads ?w2 = Some tbl"
    using t' by simp
  from Thread_Join_internal_exited [OF assms(1) t2 assms(3,4) th2(1,2), of now' this ms' sched2] th2(3)
  show "\<exists>w3. Thread_Join_internal myid now' this ms' tid (snd (timed_thread_start_routine self p w')) sched2
                = Returns (True, w3, sched2)
              \<and> threads w3 = Some (AList.delete tid tbl) \<and> heap w3 p = None"
    by (simp add: timed_thread_start_routine_effect)
qed

theorem Thread_Join_internal_timed_failure_witness:
  "Thread_Join_internal 1 1000 100 500 7 example_world [exit_wake 1000100000000]
     = Returns (False, example_world, [exit_wake 1000100000000])
   \<and> (\<exists>w3. Thread_Join_internal 1 1001 100 500 7
              (snd (timed_thread_start_routine 7 10 example_world)) [] = Returns (True, w3, [])
            \<and> threads w3 = Some [] \<and> heap w3 10 = None)"
proof -
  let ?sched = "[exit_wake 1000100000000]"
  have ms: "(0::int) < 500" by simp
  note T = Thread_Join_internal_timed_failure [OF example_registered(1-6) ms, where now = 1000 and this = 100 and sched = ?sched]
  have late: "timespec_ns (join_timeout 1000 500) \<le> wake_at (hd ?sched)"
    by (simp add: join_timeout_def div_c_def timespec_ns_def exit_wake_def
        signed_divide_int_def signed_modulo_int_def)
  from T late have first: "Thread_Join_internal 1 1000 100 500 7 example_world ?sched
     = Returns (False, example_world, ?sched)"
    by (simp add: example_registered)
  from T first have "\<forall>self now' ms' sched2. \<exists>w3.
              Thread_Join_internal 1 now' 100 ms' 7 (snd (timed_thread_start_routine self 10 example_world)) sched2
                = Returns (True, w3, sched2)
              \<and> threads w3 = Some (AList.delete 7 [(7, 10)]) \<and> heap w3 10 = None"
    by blast
  from this [rule_format, of 1001 500 7 "[]"] first show ?thesis
    by simp
qed

text \<open>
  C5 (the deadline of a timed join is exactly \<open>T\<close> milliseconds from the current
  time). The code at \<open>ms = 500\<close> with \<open>time(NULL) = 1000\<close>: the deadline is
  1000 s and 500000 ns, half a millisecond after the start of the current second, where
  500 ms are 500000000 ns. So a join for 500 ms called in that second gives up on a thread
  that exits 100 ms after the start of the second.
\<close>

theorem join_timeout_500:
  "join_timeout 1000 500 = \<lparr>tv_sec = 1000, tv_nsec = 500000\<rparr>
   \<and> timespec_ns (join_timeout 1000 500) - 1000 * 1000000000 = 500000
   \<and> ms_ns 500 = 500000000
   \<and> Thread_Join_internal 1 1000 100 500 7 example_world [exit_wake (1000 * 1000000000 + ms_ns 100)]
        = Returns (False, example_world, [exit_wake (1000 * 1000000000 + ms_ns 100)])"
proof -
  have t: "join_timeout 1000 500 = \<lparr>tv_sec = 1000, tv_nsec = 500000\<rparr>"
    by (simp add: join_timeout_def div_c_def signed_divide_int_def signed_modulo_int_def)
  let ?sched = "[exit_wake (1000 * 1000000000 + ms_ns 100)]"
  have "wait_loop 10 (Some (join_timeout 1000 500)) 0 example_world ?sched
          = Returns (ETIMEDOUT, example_world, ?sched)"
    by (rule wait_loop_timeout [OF example_registered(5,7)])
      (simp_all add: t timespec_ns_def exit_wake_def ms_ns_def)
  moreover have ms: "(500::int) \<noteq> 0"
    by simp
  note unf = Thread_Join_internal_timed_unfold [OF example_registered(1-4) ms, of 1000 100 ?sched]
  ultimately have "Thread_Join_internal 1 1000 100 500 7 example_world ?sched
        = Returns (False, example_world, ?sched)"
    unfolding unf by (simp add: ETIMEDOUT_def)
  with t show ?thesis
    by (simp add: timespec_ns_def ms_ns_def)
qed

subsection \<open>Starting\<close>

lemma timed_thread_create_failed:
  assumes "heap w p = None" and "fst created \<noteq> 0"
  shows "timed_thread_create p created f a w = (fst created, NULL, w)"
proof -
  have "((heap w)(p \<mapsto> th))(p := None) = heap w" for th
    using assms(1) by (simp add: fun_upd_idem)
  then show ?thesis
    using assms(2) by (simp add: timed_thread_create_def g_free_def Let_def)
qed

lemma timed_thread_create_ok:
  assumes "fst created = 0"
  shows "timed_thread_create p created f a w
           = (0, p, w\<lparr>heap := (heap w)(p \<mapsto> \<lparr>id_t = snd created, object = NULL, start_routine = f,
                                                arg = a, status = NULL, exiting = False\<rparr>)\<rparr>)"
  using assms by (simp add: timed_thread_create_def store_def Let_def)

lemma Thread_Start_internal_ok:
  assumes "method_ptr w start \<noteq> NULL" and "fst created = 0"
  shows "Thread_Start_internal self p created this start w
          = (snd created,
             w\<lparr>heap := (heap w)(p \<mapsto> \<lparr>id_t = snd created, object = this,
                                         start_routine = method_ptr w start, arg = NULL,
                                         status = NULL, exiting = False\<rparr>),
               threads := Some (AList.update (snd created) p
                                  (case threads w of None \<Rightarrow> [] | Some tbl \<Rightarrow> tbl))\<rparr>)"
  using assms
  by (cases "threads w")
    (simp_all add: Thread_Start_internal_def timed_thread_create_ok start_after_create_def
      perform_def store_def g_hash_table_insert_def)

lemma timed_thread_start_routine_actions:
  assumes "heap w p = Some th" and "p \<noteq> NULL"
  shows "fst (timed_thread_start_routine self p w)
           = [Pthread_once, Setspecific p, Invoke (start_routine th) (arg th),
              Mutex_lock p, Store_status p (code w (start_routine th) (arg th)),
              Store_exiting p True, Cond_signal p, Mutex_unlock p, Pthread_exit]"
  using assms
  by (simp add: timed_thread_start_routine_def timed_thread_exit_def perform_def Let_def)

text \<open>
  C6: \<open>Thread_Start_internal\<close>, when \<open>g_new0\<close> returns an address not in use.
  It returns 0 when the delegate has no method pointer (nothing is allocated, nothing
  registered), and when \<open>pthread_create\<close> fails (the \<open>ThreadInfo\<close> just
  allocated is freed again: heap and table are as before); otherwise the new
  \<open>ThreadInfo\<close> is registered under the new thread's id and that id is returned.
  These are the only ways to get 0, unless \<open>pthread_create\<close> itself hands out the
  id 0.
\<close>

theorem Thread_Start_internal_cases:
  assumes "heap w p = None"
  shows
    "(method_ptr w start = NULL \<longrightarrow>
        Thread_Start_internal self p created this start w = (0, g_warning Cant_locate_start_method w))
   \<and> (method_ptr w start \<noteq> NULL \<and> fst created \<noteq> 0 \<longrightarrow>
        Thread_Start_internal self p created this start w
          = (0, g_warning (Pthread_create_error (fst created)) w))
   \<and> (method_ptr w start \<noteq> NULL \<and> fst created = 0 \<longrightarrow>
        Thread_Start_internal self p created this start w
          = (snd created,
             w\<lparr>heap := (heap w)(p \<mapsto> \<lparr>id_t = snd created, object = this,
                                         start_routine = method_ptr w start, arg = NULL,
                                         status = NULL, exiting = False\<rparr>),
               threads := Some (AList.update (snd created) p
                                  (case threads w of None \<Rightarrow> [] | Some tbl \<Rightarrow> tbl))\<rparr>))
   \<and> (fst (Thread_Start_internal self p created this start w) = 0 \<longrightarrow>
        method_ptr w start = NULL \<or> fst created \<noteq> 0 \<or> snd created = 0)
   \<and> (method_ptr w start = NULL \<or> fst created \<noteq> 0 \<longrightarrow>
        heap (snd (Thread_Start_internal self p created this start w)) = heap w
        \<and> threads (snd (Thread_Start_internal self p created this start w)) = threads w)"
proof -
  have none: "method_ptr w start = NULL \<Longrightarrow>
      Thread_Start_internal self p created this start w = (0, g_warning Cant_locate_start_method w)"
    by (simp add: Thread_Start_internal_def)
  have failed: "method_ptr w start \<noteq> NULL \<Longrightarrow> fst created \<noteq> 0 \<Longrightarrow>
      Thread_Start_internal self p created this start w
          = (0, g_warning (Pthread_create_error (fst created)) w)"
    using assms by (simp add: Thread_Start_internal_def timed_thread_create_failed)
  have ok: "method_ptr w start \<noteq> NULL \<Longrightarrow> fst created = 0 \<Longrightarrow>
      Thread_Start_internal self p created this start w
          = (snd created,
             w\<lparr>heap := (heap w)(p \<mapsto> \<lparr>id_t = snd created, object = this,
                                         start_routine = method_ptr w start, arg = NULL,
                                         status = NULL, exiting = False\<rparr>),
               threads := Some (AList.update (snd created) p
                                  (case threads w of None \<Rightarrow> [] | Some tbl \<Rightarrow> tbl))\<rparr>)"
    by (rule Thread_Start_internal_ok)
  show ?thesis
    using none failed ok by (cases "method_ptr w start = NULL"; cases "fst created = 0") auto
qed

theorem Thread_Start_internal_cases_witness:
  "Thread_Start_internal 1 10 (0, 7) 100 300 initial_world = (0, g_warning Cant_locate_start_method initial_world)
   \<and> Thread_Start_internal 1 10 (11, 0) 100 200 initial_world = (0, g_warning (Pthread_create_error 11) initial_world)
   \<and> Thread_Start_internal 1 10 (0, 7) 100 200 initial_world
        = (7, initial_world\<lparr>heap := [10 \<mapsto> example_thread], threads := Some [(7, 10)]\<rparr>)"
proof -
  have fresh: "heap initial_world 10 = None"
    by (simp add: initial_world_def)
  have m: "method_ptr initial_world 300 = NULL" "method_ptr initial_world 200 = 50"
    by (simp_all add: initial_world_def)
  have t: "threads initial_world = None" "heap initial_world = Map.empty"
    by (simp_all add: initial_world_def)
  from Thread_Start_internal_cases [OF fresh, of 300 1 "(0, 7)" 100]
    Thread_Start_internal_cases [OF fresh, of 200 1 "(11, 0)" 100]
    Thread_Start_internal_cases [OF fresh, of 200 1 "(0, 7)" 100]
  show ?thesis
    by (simp add: m t example_thread_def)
qed

text \<open>
  C10: after a successful start the \<open>ThreadInfo\<close> holds the delegate's method
  pointer and the argument \<open>NULL\<close>; whenever the spawned thread runs
  (right after \<open>timed_thread_create\<close>, after the start has returned, or in any
  later world in which the \<open>ThreadInfo\<close> has only been marked as exited), its one
  call of a start routine is the call of that method pointer with \<open>NULL\<close>, and the
  status it records is what that call returns.
\<close>

theorem start_routine_called_with_NULL:
  assumes "p \<noteq> NULL" and "method_ptr w start \<noteq> NULL" and "fst created = 0"
    and "Thread_Start_internal self p created this start w = (tid, w')"
  shows
    "(\<exists>th. heap w' p = Some th \<and> start_routine th = method_ptr w start \<and> arg th = NULL)
   \<and> (\<forall>w'' self'. exits_only (heap w' p) (heap w'' p) \<longrightarrow>
         filter is_Invoke (fst (timed_thread_start_routine self' p w''))
           = [Invoke (method_ptr w start) NULL]
         \<and> (\<exists>th'. heap (snd (timed_thread_start_routine self' p w'')) p = Some th'
               \<and> status th' = code w'' (method_ptr w start) NULL))
   \<and> filter is_Invoke (fst (timed_thread_start_routine tid p
         (snd (snd (timed_thread_create p created (method_ptr w start) NULL w)))))
           = [Invoke (method_ptr w start) NULL]"
proof (intro conjI allI impI)
  let ?f = "method_ptr w start"
  let ?th = "\<lparr>id_t = snd created, object = this, start_routine = ?f, arg = NULL,
              status = NULL, exiting = False\<rparr>"
  from assms(4) Thread_Start_internal_ok [OF assms(2,3), of self p this]
  have h': "heap w' p = Some ?th"
    by auto
  then show "\<exists>th. heap w' p = Some th \<and> start_routine th = ?f \<and> arg th = NULL"
    by simp
  {
    fix w'' :: world and self' :: pthread_t
    assume "exits_only (heap w' p) (heap w'' p)"
    with h' obtain th2 where th2: "heap w'' p = Some th2" "start_routine th2 = ?f" "arg th2 = NULL"
      by (auto simp: exits_only_def split: option.splits)
    from timed_thread_start_routine_actions [OF th2(1) assms(1), of self'] th2(2,3)
    show "filter is_Invoke (fst (timed_thread_start_routine self' p w'')) = [Invoke ?f NULL]"
      by simp
    from th2 assms(1)
    show "\<exists>th'. heap (snd (timed_thread_start_routine self' p w'')) p = Some th'
               \<and> status th' = code w'' ?f NULL"
      by (simp add: timed_thread_start_routine_effect thread_effect_heap)
  }
  let ?w1 = "snd (snd (timed_thread_create p created ?f NULL w))"
  have "heap ?w1 p = Some \<lparr>id_t = snd created, object = NULL, start_routine = ?f, arg = NULL,
              status = NULL, exiting = False\<rparr>"
    by (simp add: timed_thread_create_ok [OF assms(3)])
  from timed_thread_start_routine_actions [OF this assms(1), of tid]
  show "filter is_Invoke (fst (timed_thread_start_routine tid p ?w1)) = [Invoke ?f NULL]"
    by simp
qed

theorem start_routine_called_with_NULL_witness:
  "filter is_Invoke (fst (timed_thread_start_routine 7 10
       (snd (Thread_Start_internal 1 10 (0, 7) 100 200 initial_world)))) = [Invoke 50 NULL]
   \<and> (\<exists>th'. heap (snd (timed_thread_start_routine 7 10
          (snd (Thread_Start_internal 1 10 (0, 7) 100 200 initial_world)))) 10 = Some th'
         \<and> status th' = 99)"
proof -
  define w' where "w' = snd (Thread_Start_internal 1 10 (0, 7) 100 200 initial_world)"
  have m: "method_ptr initial_world 200 = 50"
    by (simp add: initial_world_def)
  have a: "(10::nat) \<noteq> NULL" "method_ptr initial_world 200 \<noteq> NULL" "fst (0::int, 7::nat) = 0"
    by (simp_all add: m)
  note ok = Thread_Start_internal_ok [OF a(2,3), of 1 10 100]
  have s: "Thread_Start_internal 1 10 (0, 7) 100 200 initial_world = (7, w')"
    unfolding w'_def ok by simp
  have c: "code w' 50 NULL = 99"
    unfolding w'_def ok by (simp add: initial_world_def)
  from start_routine_called_with_NULL [OF a s, THEN conjunct2, THEN conjunct1, rule_format, of w' 7]
  show ?thesis
    unfolding w'_def [symmetric] by (simp add: m c)
qed

subsection \<open>The exit protocol\<close>

lemma interleaving_set: "interleaving xs ys zs \<Longrightarrow> set zs = set xs \<union> set ys"
  by (induction rule: interleaving.induct) auto

lemma interleaving_filter:
  "interleaving xs ys zs \<Longrightarrow> filter P xs = [] \<Longrightarrow> filter P zs = filter P ys"
  by (induction rule: interleaving.induct) (auto split: if_splits)

lemma exit_actions_split:
  assumes "[Pthread_once, Setspecific p, Invoke f a, Mutex_lock p, Store_status p v,
            Store_exiting p True, Cond_signal p, Mutex_unlock p, Pthread_exit]
           = pre @ Store_exiting p True # post"
  shows "pre = [Pthread_once, Setspecific p, Invoke f a, Mutex_lock p, Store_status p v]
       \<and> post = [Cond_signal p, Mutex_unlock p, Pthread_exit]"
  using assms by (auto simp: Cons_eq_append_conv)

lemma created_world_heap:
  "heap created_world 10 = Some \<lparr>id_t = 7, object = NULL, start_routine = 50, arg = NULL, status = NULL, exiting = False\<rparr>"
  "code created_world = code initial_world"
  by (simp_all add: created_world_def timed_thread_create_ok initial_world_def)

lemma example_trace_interleaving:
  "interleaving (map (Pair 1) (start_after_create 10 7 100))
     (map (Pair 7) (fst (timed_thread_start_routine 7 10 created_world))) example_trace"
proof -
  have acts: "fst (timed_thread_start_routine 7 10 created_world)
     = [Pthread_once, Setspecific 10, Invoke 50 NULL, Mutex_lock 10, Store_status 10 99,
        Store_exiting 10 True, Cond_signal 10, Mutex_unlock 10, Pthread_exit]"
    by (simp add: timed_thread_start_routine_actions [OF created_world_heap(1)] created_world_heap(2)
        initial_world_def)
  show ?thesis
    unfolding acts start_after_create_def example_trace_def
    by (simp add: interleaving.intros)
qed

text \<open>
  C7, as stated, fails in its last part: \<open>Thread_Start_internal\<close> stores
  \<open>thread->object\<close> after \<open>timed_thread_create\<close> has spawned the thread, so
  in the interleaving \<open>example_trace\<close> the field \<open>object\<close> is written after
  the spawned thread has called its start routine.
\<close>

theorem object_stored_after_invoke:
  "Thread_Start_internal 1 10 (0, 7) 100 200 initial_world
     = (7, perform 1 (start_after_create 10 7 100) created_world)
   \<and> interleaving (map (Pair 1) (start_after_create 10 7 100))
        (map (Pair 7) (fst (timed_thread_start_routine 7 10 created_world))) example_trace
   \<and> \<not> only_exit_stores_after_invoke 10 example_trace"
proof (intro conjI)
  show "Thread_Start_internal 1 10 (0, 7) 100 200 initial_world
     = (7, perform 1 (start_after_create 10 7 100) created_world)"
    by (simp add: Thread_Start_internal_def created_world_def timed_thread_create_ok initial_world_def)
  have acts: "fst (timed_thread_start_routine 7 10 created_world)
     = [Pthread_once, Setspecific 10, Invoke 50 NULL, Mutex_lock 10, Store_status 10 99,
        Store_exiting 10 True, Cond_signal 10, Mutex_unlock 10, Pthread_exit]"
    by (simp add: timed_thread_start_routine_actions [OF created_world_heap(1)] created_world_heap(2)
        initial_world_def)
  show "interleaving (map (Pair 1) (start_after_create 10 7 100))
        (map (Pair 7) (fst (timed_thread_start_routine 7 10 created_world))) example_trace"
    unfolding acts start_after_create_def example_trace_def
    by (simp add: interleaving.intros)
  show "\<not> only_exit_stores_after_invoke 10 example_trace"
    by (simp add: only_exit_stores_after_invoke_def after_invoke_def example_trace_def)
qed

text \<open>
  C7, amended: for a thread spawned by \<open>timed_thread_create\<close>, \<open>exiting\<close>
  starts \<open>FALSE\<close>; the thread stores to it exactly once, the value \<open>TRUE\<close>,
  and nobody else does; at that store the thread holds the mutex, and it signals the
  condition while it still holds it; the thread itself stores to no field but
  \<open>status\<close> and \<open>exiting\<close>. In every interleaving with the rest of
  \<open>Thread_Start_internal\<close> the only other store to the \<open>ThreadInfo\<close> is
  the starting thread's store to \<open>object\<close>.
\<close>

theorem spawned_thread_exit_protocol:
  assumes "p \<noteq> NULL"
    and "w1 = snd (snd (timed_thread_create p (0, tid) f a w))"
    and "acts = fst (timed_thread_start_routine tid p w1)"
  shows
    "(\<exists>th. heap w1 p = Some th \<and> \<not> exiting th)
   \<and> filter (exiting_store p) acts = [Store_exiting p True]
   \<and> (\<exists>th'. heap (snd (timed_thread_start_routine tid p w1)) p = Some th' \<and> exiting th')
   \<and> (\<forall>pre post. acts = pre @ Store_exiting p True # post \<longrightarrow>
         holds_mutex p pre
         \<and> (\<exists>mid rest. post = mid @ Cond_signal p # rest
                \<and> holds_mutex p (pre @ Store_exiting p True # mid)))
   \<and> (\<forall>x \<in> set acts. handle_store p x \<longrightarrow> exit_store p x)
   \<and> (\<forall>tr. interleaving (map (Pair self) (start_after_create p tid this)) (map (Pair tid) acts) tr \<longrightarrow>
         filter (\<lambda>x. exiting_store p (snd x)) tr = [(tid, Store_exiting p True)]
         \<and> (\<forall>x \<in> set tr. handle_store p (snd x) \<longrightarrow>
               (fst x = tid \<and> exit_store p (snd x)) \<or> x = (self, Store_object p this)))"
proof -
  let ?th = "\<lparr>id_t = tid, object = NULL, start_routine = f, arg = a, status = NULL, exiting = False\<rparr>"
  have h1: "heap w1 p = Some ?th"
    by (simp add: assms(2) timed_thread_create_ok)
  have acts: "acts = [Pthread_once, Setspecific p, Invoke f a, Mutex_lock p,
                      Store_status p (code w1 f a), Store_exiting p True, Cond_signal p,
                      Mutex_unlock p, Pthread_exit]"
    using timed_thread_start_routine_actions [OF h1 assms(1), of tid] by (simp add: assms(3))
  have a: "\<exists>th. heap w1 p = Some th \<and> \<not> exiting th"
    using h1 by simp
  have b: "filter (exiting_store p) acts = [Store_exiting p True]"
    by (simp add: acts)
  have c: "\<exists>th'. heap (snd (timed_thread_start_routine tid p w1)) p = Some th' \<and> exiting th'"
    using thread_effect_exited [OF h1 assms(1), of tid]
    by (auto simp: timed_thread_start_routine_effect)
  have d: "\<forall>pre post. acts = pre @ Store_exiting p True # post \<longrightarrow>
         holds_mutex p pre
         \<and> (\<exists>mid rest. post = mid @ Cond_signal p # rest
                \<and> holds_mutex p (pre @ Store_exiting p True # mid))"
  proof (intro allI impI)
    fix pre post
    assume "acts = pre @ Store_exiting p True # post"
    from exit_actions_split [OF this [unfolded acts]]
    have pre: "pre = [Pthread_once, Setspecific p, Invoke f a, Mutex_lock p, Store_status p (code w1 f a)]"
      and post: "post = [Cond_signal p, Mutex_unlock p, Pthread_exit]"
      by simp_all
    have "holds_mutex p pre"
      by (simp add: pre holds_mutex_def)
    moreover have "post = [] @ Cond_signal p # [Mutex_unlock p, Pthread_exit]
        \<and> holds_mutex p (pre @ Store_exiting p True # [])"
      by (simp add: pre post holds_mutex_def)
    ultimately show "holds_mutex p pre
         \<and> (\<exists>mid rest. post = mid @ Cond_signal p # rest
                \<and> holds_mutex p (pre @ Store_exiting p True # mid))"
      by blast
  qed
  have e: "\<forall>x \<in> set acts. handle_store p x \<longrightarrow> exit_store p x"
    by (simp add: acts)
  have f: "\<forall>tr. interleaving (map (Pair self) (start_after_create p tid this)) (map (Pair tid) acts) tr \<longrightarrow>
         filter (\<lambda>x. exiting_store p (snd x)) tr = [(tid, Store_exiting p True)]
         \<and> (\<forall>x \<in> set tr. handle_store p (snd x) \<longrightarrow>
               (fst x = tid \<and> exit_store p (snd x)) \<or> x = (self, Store_object p this))"
  proof (intro allI impI conjI)
    fix tr
    assume i: "interleaving (map (Pair self) (start_after_create p tid this)) (map (Pair tid) acts) tr"
    have "filter (\<lambda>x. exiting_store p (snd x)) (map (Pair self) (start_after_create p tid this)) = []"
      by (simp add: start_after_create_def)
    from interleaving_filter [OF i this]
    show "filter (\<lambda>x. exiting_store p (snd x)) tr = [(tid, Store_exiting p True)]"
      by (simp add: acts)
    from interleaving_set [OF i]
    show "\<forall>x \<in> set tr. handle_store p (snd x) \<longrightarrow>
               (fst x = tid \<and> exit_store p (snd x)) \<or> x = (self, Store_object p this)"
      by (auto simp: acts start_after_create_def)
  qed
  from a b c d e f show ?thesis
    by blast
qed

theorem spawned_thread_exit_protocol_witness:
  "filter (exiting_store 10) (fst (timed_thread_start_routine 7 10 created_world)) = [Store_exiting 10 True]
   \<and> filter (\<lambda>x. exiting_store 10 (snd x)) example_trace = [(7, Store_exiting 10 True)]
   \<and> (\<exists>th. heap created_world 10 = Some th \<and> \<not> exiting th)"
proof -
  have a: "(10::nat) \<noteq> NULL" by simp
  note T = spawned_thread_exit_protocol [OF a created_world_def refl, of 1 100]
  from T have 1: "filter (exiting_store 10) (fst (timed_thread_start_routine 7 10 created_world)) = [Store_exiting 10 True]"
    and 2: "\<exists>th. heap created_world 10 = Some th \<and> \<not> exiting th"
    by blast+
  from T have "\<forall>tr. interleaving (map (Pair (1::nat)) (start_after_create 10 7 100))
        (map (Pair (7::nat)) (fst (timed_thread_start_routine 7 10 created_world))) tr \<longrightarrow>
         filter (\<lambda>x. exiting_store 10 (snd x)) tr = [(7, Store_exiting 10 True)]"
    by blast
  from this [rule_format, OF example_trace_interleaving] 1 2 show ?thesis
    by blast
qed

subsection \<open>Cleanup\<close>

lemma run_wakes_exits:
  assumes "e \<in> set es" and "q \<in> snd ` set (wake_ran e)" and "q \<noteq> NULL" and "heap w q = Some th"
  shows "\<exists>th'. heap (run_wakes es w) q = Some th' \<and> exiting th'"
  using assms
proof (induction es arbitrary: w th)
  case Nil
  then show ?case by simp
next
  case (Cons e' es)
  let ?w = "run_threads (wake_ran e') w"
  show ?case
  proof (cases "e = e'")
    case True
    from run_threads_exits [OF Cons.prems(2) [unfolded True] Cons.prems(3,4)]
    obtain th1 where th1: "heap ?w q = Some th1" "exiting th1" by blast
    from run_wakes_exits_only [of ?w q es] th1 show ?thesis
      by (auto simp: exits_only_def split: option.splits)
  next
    case False
    with Cons.prems have in_es: "e \<in> set es" by simp
    from run_threads_exits_only [of w q "wake_ran e'"] Cons.prems(4)
    obtain th1 where "heap ?w q = Some th1"
      by (auto simp: exits_only_def split: option.splits)
    from Cons.IH [OF in_es Cons.prems(2,3) this] show ?thesis
      by simp
  qed
qed

lemma run_wakes_live: "heap w q \<noteq> None \<Longrightarrow> heap (run_wakes es w) q \<noteq> None"
  using run_wakes_exits_only [of w q es] by (auto simp: exits_only_def split: option.splits)

lemma run_wakes_stays_exited:
  "heap w q = Some th \<Longrightarrow> exiting th \<Longrightarrow> \<exists>th'. heap (run_wakes es w) q = Some th' \<and> exiting th'"
  using run_wakes_exits_only [of w q es] by (auto simp: exits_only_def split: option.splits)

text \<open>An untimed join whose waits do not fail: it blocks for good, or returns 0 when the thread has exited.\<close>

lemma untimed_join_cases:
  assumes "heap w p \<noteq> None" and "\<forall>e \<in> set sched. wake_ret e = 0"
  shows "timed_thread_join p None False w sched = Blocked
       \<or> (\<exists>consumed sched' th'. sched = consumed @ sched'
            \<and> timed_thread_join p None False w sched = Returns (0, None, run_wakes consumed w, sched')
            \<and> heap (run_wakes consumed w) p = Some th' \<and> exiting th')"
proof (cases "wait_loop p None 0 w sched")
  case (Returns x)
  obtain r w' sched' where x: "x = (r, w', sched')" by (cases x)
  note wl = Returns [unfolded x]
  from wait_loop_untimed_result [OF wl refl assms(2)] have r: "r = 0" .
  from wait_loop_stops [OF wl] r obtain th' where th': "heap w' p = Some th'" "exiting th'"
    by auto
  from wait_loop_consumes [OF wl] obtain consumed where c: "sched = consumed @ sched'" "w' = run_wakes consumed w"
    by blast
  have "timed_thread_join p None False w sched = Returns (0, None, w', sched')"
    using wl r th' by (simp add: timed_thread_join_def)
  with c th' show ?thesis by blast
next
  case Blocked
  then show ?thesis by (simp add: timed_thread_join_Blocked)
next
  case Aborted
  with wait_loop_not_Aborted [OF assms(1)] show ?thesis by blast
qed

lemma untimed_join_returns:
  assumes "heap w p = Some th" and "p \<noteq> NULL" and "\<forall>e \<in> set sched. wake_ret e = 0"
    and "exiting th \<or> (\<exists>e \<in> set sched. p \<in> snd ` set (wake_ran e))"
  shows "timed_thread_join p None False w sched \<noteq> Blocked"
proof (cases "exiting th")
  case True
  with assms(1) show ?thesis by (simp add: timed_thread_join_exited)
next
  case False
  with assms(4) have "\<exists>e \<in> set sched. p \<in> snd ` set (wake_ran e)" by simp
  from split_list_first_prop [OF this]
  obtain pre e rest where s: "sched = pre @ e # rest" and e: "p \<in> snd ` set (wake_ran e)"
    and pre: "\<forall>e' \<in> set pre. p \<notin> snd ` set (wake_ran e')"
    by blast
  from pre assms(3) s have pre0: "\<forall>e' \<in> set pre. wake_ret e' = 0 \<and> p \<notin> snd ` set (wake_ran e')"
    by simp
  from wait_loop_untimed_exit [OF assms(1) False assms(2) pre0 e, of rest]
  have wl: "wait_loop p None 0 w sched = Returns (wake_ret e, run_wakes (pre @ [e]) w, rest)"
    by (simp add: s)
  from timed_thread_join_of_wait_loop [OF wl, of False] show ?thesis
    by auto
qed

lemma join_all_threads_cases:
  assumes "\<forall>x \<in> set tbl. heap w (snd x) \<noteq> None" and "\<forall>e \<in> set sched. wake_ret e = 0"
  shows "join_all_threads tbl w sched = Blocked
       \<or> (\<exists>consumed sched'. sched = consumed @ sched'
            \<and> join_all_threads tbl w sched = Returns (run_wakes consumed w, sched')
            \<and> (\<forall>x \<in> set tbl. \<exists>th'. heap (run_wakes consumed w) (snd x) = Some th' \<and> exiting th'))"
  using assms
proof (induction tbl arbitrary: w sched)
  case Nil
  then show ?case by (auto intro: exI [of _ "[]"])
next
  case (Cons entry tbl)
  obtain k p where entry: "entry = (k, p)" by (cases entry)
  from Cons.prems(1) entry have live_p: "heap w p \<noteq> None" by simp
  from untimed_join_cases [OF live_p Cons.prems(2)]
  show ?case
  proof
    assume "timed_thread_join p None False w sched = Blocked"
    then show ?thesis by (simp add: entry)
  next
    assume "\<exists>consumed sched' th'. sched = consumed @ sched'
            \<and> timed_thread_join p None False w sched = Returns (0, None, run_wakes consumed w, sched')
            \<and> heap (run_wakes consumed w) p = Some th' \<and> exiting th'"
    then obtain c1 s1 th1 where s: "sched = c1 @ s1"
      and j: "timed_thread_join p None False w sched = Returns (0, None, run_wakes c1 w, s1)"
      and th1: "heap (run_wakes c1 w) p = Some th1" "exiting th1"
      by blast
    let ?w1 = "run_wakes c1 w"
    have live1: "\<forall>x \<in> set tbl. heap ?w1 (snd x) \<noteq> None"
      using Cons.prems(1) by (simp add: run_wakes_live)
    have nofail1: "\<forall>e \<in> set s1. wake_ret e = 0"
      using Cons.prems(2) s by simp
    from Cons.IH [OF live1 nofail1]
    show ?thesis
    proof
      assume "join_all_threads tbl ?w1 s1 = Blocked"
      with j show ?thesis by (simp add: entry)
    next
      assume "\<exists>consumed sched'. s1 = consumed @ sched'
            \<and> join_all_threads tbl ?w1 s1 = Returns (run_wakes consumed ?w1, sched')
            \<and> (\<forall>x \<in> set tbl. \<exists>th'. heap (run_wakes consumed ?w1) (snd x) = Some th' \<and> exiting th')"
      then obtain c2 sched' where s1: "s1 = c2 @ sched'"
        and ja: "join_all_threads tbl ?w1 s1 = Returns (run_wakes c2 ?w1, sched')"
        and ex: "\<forall>x \<in> set tbl. \<exists>th'. heap (run_wakes c2 ?w1) (snd x) = Some th' \<and> exiting th'"
        by blast
      have "sched = (c1 @ c2) @ sched'"
        using s s1 by simp
      moreover have "join_all_threads (entry # tbl) w sched = Returns (run_wakes (c1 @ c2) w, sched')"
        using j ja by (simp add: entry)
      moreover have "\<forall>x \<in> set (entry # tbl). \<exists>th'. heap (run_wakes (c1 @ c2) w) (snd x) = Some th' \<and> exiting th'"
        using ex run_wakes_stays_exited [OF th1, of c2] by (simp add: entry)
      ultimately show ?thesis by blast
    qed
  qed
qed

lemma join_all_threads_blocked:
  assumes "\<forall>x \<in> set tbl. heap w (snd x) \<noteq> None" and "\<forall>e \<in> set sched. wake_ret e = 0"
    and "(k, p) \<in> set tbl" and "heap w p = Some th" and "\<not> exiting th"
    and "\<forall>e \<in> set sched. p \<notin> snd ` set (wake_ran e)"
  shows "join_all_threads tbl w sched = Blocked"
proof -
  from join_all_threads_cases [OF assms(1,2)]
  show ?thesis
  proof
    assume "join_all_threads tbl w sched = Blocked"
    then show ?thesis .
  next
    assume "\<exists>consumed sched'. sched = consumed @ sched'
            \<and> join_all_threads tbl w sched = Returns (run_wakes consumed w, sched')
            \<and> (\<forall>x \<in> set tbl. \<exists>th'. heap (run_wakes consumed w) (snd x) = Some th' \<and> exiting th')"
    then obtain consumed sched' where s: "sched = consumed @ sched'"
      and ex: "\<forall>x \<in> set tbl. \<exists>th'. heap (run_wakes consumed w) (snd x) = Some th' \<and> exiting th'"
      by blast
    from assms(6) s have "\<forall>e \<in> set consumed. p \<notin> snd ` set (wake_ran e)" by simp
    from run_wakes_other [OF this, of w] assms(4) have "heap (run_wakes consumed w) p = Some th"
      by simp
    with bspec [OF ex assms(3)] assms(5) show ?thesis by simp
  qed
qed

lemma join_all_threads_returns:
  assumes "\<forall>e \<in> set sched. wake_ret e = 0"
    and "\<forall>x \<in> set tbl. snd x \<noteq> NULL \<and> (\<exists>th. heap w (snd x) = Some th
           \<and> (exiting th \<or> (\<exists>e \<in> set sched. snd x \<in> snd ` set (wake_ran e))))"
  shows "join_all_threads tbl w sched \<noteq> Blocked"
  using assms
proof (induction tbl arbitrary: w sched)
  case Nil
  then show ?case by simp
next
  case (Cons entry tbl)
  obtain k p where entry: "entry = (k, p)" by (cases entry)
  have "entry \<in> set (entry # tbl)" by simp
  from bspec [OF Cons.prems(2) this] obtain th where p: "p \<noteq> NULL" "heap w p = Some th"
    "exiting th \<or> (\<exists>e \<in> set sched. p \<in> snd ` set (wake_ran e))"
    unfolding entry by auto
  from untimed_join_returns [OF p(2,1) Cons.prems(1) p(3)]
  have nb: "timed_thread_join p None False w sched \<noteq> Blocked" .
  have "heap w p \<noteq> None" using p(2) by simp
  from untimed_join_cases [OF this Cons.prems(1)] nb
  obtain c1 s1 where s: "sched = c1 @ s1"
    and j: "timed_thread_join p None False w sched = Returns (0, None, run_wakes c1 w, s1)"
    by blast
  let ?w1 = "run_wakes c1 w"
  have nofail1: "\<forall>e \<in> set s1. wake_ret e = 0"
    using Cons.prems(1) s by simp
  have rest: "\<forall>x \<in> set tbl. snd x \<noteq> NULL \<and> (\<exists>th. heap ?w1 (snd x) = Some th
           \<and> (exiting th \<or> (\<exists>e \<in> set s1. snd x \<in> snd ` set (wake_ran e))))"
  proof (intro ballI)
    fix x
    assume x: "x \<in> set tbl"
    define q where "q = snd x"
    from x have "x \<in> set (entry # tbl)" by simp
    from bspec [OF Cons.prems(2) this] obtain thq where q: "q \<noteq> NULL" "heap w q = Some thq"
      "exiting thq \<or> (\<exists>e \<in> set sched. q \<in> snd ` set (wake_ran e))"
      unfolding q_def by blast
    from run_wakes_live [of w q c1] q(2) obtain thq1 where thq1: "heap ?w1 q = Some thq1"
      by auto
    have "q \<noteq> NULL \<and> (\<exists>th. heap ?w1 q = Some th
           \<and> (exiting th \<or> (\<exists>e \<in> set s1. q \<in> snd ` set (wake_ran e))))"
    proof (cases "\<exists>e \<in> set s1. q \<in> snd ` set (wake_ran e)")
      case True
      with q(1) thq1 show ?thesis by blast
    next
      case False
      have "\<exists>th'. heap ?w1 q = Some th' \<and> exiting th'"
      proof (cases "exiting thq")
        case True
        from run_wakes_stays_exited [OF q(2) True] show ?thesis .
      next
        case nex: False
        with q(3) s False obtain e where "e \<in> set c1" "q \<in> snd ` set (wake_ran e)"
          by auto
        from run_wakes_exits [OF this q(1,2)] show ?thesis .
      qed
      with q(1) show ?thesis by blast
    qed
    then show "snd x \<noteq> NULL \<and> (\<exists>th. heap ?w1 (snd x) = Some th
           \<and> (exiting th \<or> (\<exists>e \<in> set s1. snd x \<in> snd ` set (wake_ran e))))"
      unfolding q_def .
  qed
  from Cons.IH [OF nofail1 rest] j show ?case
    by (simp add: entry)
qed

lemma free_all_threadinfo_simps:
  "threads (free_all_threadinfo tbl w) = Some []"
  "heap (free_all_threadinfo tbl w) q = (if q \<in> snd ` set tbl then None else heap w q)"
  "warnings (free_all_threadinfo tbl w) = warnings w"
  by (induction tbl w rule: free_all_threadinfo.induct; auto)+

lemma example_table:
  "threads example_world = Some [(7, 10)]
     \<and> (\<forall>p \<in> snd ` set [(7::nat, 10::nat)]. p \<noteq> NULL \<and> heap example_world p \<noteq> None)"
  by (simp add: example_world_def)

text \<open>
  C9: \<open>mono_thread_cleanup\<close>, when no wait fails. With no table it returns at
  once. With a table whose entries point to allocated \<open>ThreadInfo\<close>s: (1) when it
  returns, the table is \<open>NULL\<close> again, every \<open>ThreadInfo\<close> of the table is
  freed, every one of them had \<open>exiting\<close> set before it was freed, nothing else in
  the heap has changed, and a later start creates a new table; (2) when a thread of the
  table never exits, the cleanup never returns (the joins have no deadline); (3) when
  every thread of the table has exited or exits during some wake, the cleanup returns.
\<close>

theorem mono_thread_cleanup_drains:
  assumes "\<forall>e \<in> set sched. wake_ret e = 0"
  shows
   "(threads w = None \<longrightarrow> mono_thread_cleanup w sched = Returns (w, sched))
  \<and> (\<forall>tbl. threads w = Some tbl \<and> (\<forall>p \<in> snd ` set tbl. p \<noteq> NULL \<and> heap w p \<noteq> None) \<longrightarrow>
       (\<forall>w' sched'. mono_thread_cleanup w sched = Returns (w', sched') \<longrightarrow>
           threads w' = None
         \<and> (\<forall>p \<in> snd ` set tbl. heap w' p = None)
         \<and> (\<exists>consumed. sched = consumed @ sched'
              \<and> (\<forall>p \<in> snd ` set tbl. \<exists>th. heap (run_wakes consumed w) p = Some th \<and> exiting th)
              \<and> (\<forall>q. q \<notin> snd ` set tbl \<longrightarrow> heap w' q = heap (run_wakes consumed w) q))
         \<and> (\<forall>self q created this start. fst created = 0 \<and> method_ptr w' start \<noteq> NULL \<longrightarrow>
              threads (snd (Thread_Start_internal self q created this start w')) = Some [(snd created, q)]))
     \<and> ((\<exists>p \<in> snd ` set tbl. \<exists>th. heap w p = Some th \<and> \<not> exiting th
            \<and> (\<forall>e \<in> set sched. p \<notin> snd ` set (wake_ran e))) \<longrightarrow>
          mono_thread_cleanup w sched = Blocked)
     \<and> ((\<forall>p \<in> snd ` set tbl. \<exists>th. heap w p = Some th
            \<and> (exiting th \<or> (\<exists>e \<in> set sched. p \<in> snd ` set (wake_ran e)))) \<longrightarrow>
          (\<exists>w' sched'. mono_thread_cleanup w sched = Returns (w', sched'))))"
proof (intro conjI allI impI)
  assume "threads w = None"
  then show "mono_thread_cleanup w sched = Returns (w, sched)"
    by (simp add: mono_thread_cleanup_def)
next
  fix tbl w' sched'
  assume reg: "threads w = Some tbl \<and> (\<forall>p \<in> snd ` set tbl. p \<noteq> NULL \<and> heap w p \<noteq> None)"
    and ret: "mono_thread_cleanup w sched = Returns (w', sched')"
  from reg have t: "threads w = Some tbl" and live: "\<forall>x \<in> set tbl. heap w (snd x) \<noteq> None"
    by simp_all
  from ret t obtain w1 where ja: "join_all_threads tbl w sched = Returns (w1, sched')"
    and w': "w' = (free_all_threadinfo tbl w1)\<lparr>threads := None\<rparr>"
    by (auto simp: mono_thread_cleanup_def Let_def split: run.splits)
  from join_all_threads_cases [OF live assms] ja
  obtain consumed where c: "sched = consumed @ sched'" "w1 = run_wakes consumed w"
    and ex: "\<forall>x \<in> set tbl. \<exists>th'. heap (run_wakes consumed w) (snd x) = Some th' \<and> exiting th'"
    by auto
  show "threads w' = None"
    by (simp add: w')
  show "\<forall>p \<in> snd ` set tbl. heap w' p = None"
    by (simp add: w' free_all_threadinfo_simps)
  have "\<forall>p \<in> snd ` set tbl. \<exists>th. heap (run_wakes consumed w) p = Some th \<and> exiting th"
    using ex by simp
  moreover have "\<forall>q. q \<notin> snd ` set tbl \<longrightarrow> heap w' q = heap (run_wakes consumed w) q"
    by (simp add: w' c free_all_threadinfo_simps)
  ultimately show "\<exists>consumed. sched = consumed @ sched'
              \<and> (\<forall>p \<in> snd ` set tbl. \<exists>th. heap (run_wakes consumed w) p = Some th \<and> exiting th)
              \<and> (\<forall>q. q \<notin> snd ` set tbl \<longrightarrow> heap w' q = heap (run_wakes consumed w) q)"
    using c(1) by blast
  fix self q this start :: nat and created :: "int \<times> pthread_t"
  assume "fst created = 0 \<and> method_ptr w' start \<noteq> NULL"
  then show "threads (snd (Thread_Start_internal self q created this start w')) = Some [(snd created, q)]"
    by (simp add: Thread_Start_internal_ok w')
next
  fix tbl
  assume reg: "threads w = Some tbl \<and> (\<forall>p \<in> snd ` set tbl. p \<noteq> NULL \<and> heap w p \<noteq> None)"
    and never: "\<exists>p \<in> snd ` set tbl. \<exists>th. heap w p = Some th \<and> \<not> exiting th
            \<and> (\<forall>e \<in> set sched. p \<notin> snd ` set (wake_ran e))"
  from reg have t: "threads w = Some tbl" and live: "\<forall>x \<in> set tbl. heap w (snd x) \<noteq> None"
    by simp_all
  from never obtain k p th where "(k, p) \<in> set tbl" "heap w p = Some th" "\<not> exiting th"
    "\<forall>e \<in> set sched. p \<notin> snd ` set (wake_ran e)"
    by auto
  from join_all_threads_blocked [OF live assms this]
  show "mono_thread_cleanup w sched = Blocked"
    by (simp add: mono_thread_cleanup_def t)
next
  fix tbl
  assume reg: "threads w = Some tbl \<and> (\<forall>p \<in> snd ` set tbl. p \<noteq> NULL \<and> heap w p \<noteq> None)"
    and all: "\<forall>p \<in> snd ` set tbl. \<exists>th. heap w p = Some th
            \<and> (exiting th \<or> (\<exists>e \<in> set sched. p \<in> snd ` set (wake_ran e)))"
  from reg have t: "threads w = Some tbl" and live: "\<forall>x \<in> set tbl. heap w (snd x) \<noteq> None"
    by simp_all
  from reg all have "\<forall>x \<in> set tbl. snd x \<noteq> NULL \<and> (\<exists>th. heap w (snd x) = Some th
           \<and> (exiting th \<or> (\<exists>e \<in> set sched. snd x \<in> snd ` set (wake_ran e))))"
    by simp
  from join_all_threads_returns [OF assms this] join_all_threads_cases [OF live assms]
  obtain w1 sched' where "join_all_threads tbl w sched = Returns (w1, sched')"
    by blast
  then show "\<exists>w' sched'. mono_thread_cleanup w sched = Returns (w', sched')"
    by (simp add: mono_thread_cleanup_def t Let_def)
qed

theorem mono_thread_cleanup_drains_witness:
  "mono_thread_cleanup example_world [spurious_wake 5] = Blocked
   \<and> (\<exists>w' sched'. mono_thread_cleanup example_world [spurious_wake 5, exit_wake 9] = Returns (w', sched')
         \<and> threads w' = None \<and> heap w' 10 = None)"
proof
  have nofail: "\<forall>e \<in> set [spurious_wake 5]. wake_ret e = 0"
    by (simp add: spurious_wake_def)
  have never: "\<exists>p \<in> snd ` set [(7::nat, 10::nat)]. \<exists>th. heap example_world p = Some th \<and> \<not> exiting th
            \<and> (\<forall>e \<in> set [spurious_wake 5]. p \<notin> snd ` set (wake_ran e))"
    by (simp add: example_world_def example_thread_def spurious_wake_def)
  note T = mono_thread_cleanup_drains [OF nofail, of example_world, THEN conjunct2, rule_format, OF example_table]
  from T [THEN conjunct2, THEN conjunct1, rule_format, OF never]
  show "mono_thread_cleanup example_world [spurious_wake 5] = Blocked" .
next
  let ?sched = "[spurious_wake 5, exit_wake 9]"
  have nofail: "\<forall>e \<in> set ?sched. wake_ret e = 0"
    by (simp add: spurious_wake_def exit_wake_def)
  have all: "\<forall>p \<in> snd ` set [(7::nat, 10::nat)]. \<exists>th. heap example_world p = Some th
            \<and> (exiting th \<or> (\<exists>e \<in> set ?sched. p \<in> snd ` set (wake_ran e)))"
    by (simp add: example_world_def exit_wake_def)
  note T = mono_thread_cleanup_drains [OF nofail, of example_world, THEN conjunct2, rule_format, OF example_table]
  from T [THEN conjunct2, THEN conjunct2, THEN mp, OF all]
  obtain w' sched' where ret: "mono_thread_cleanup example_world ?sched = Returns (w', sched')"
    by blast
  from T [THEN conjunct1, rule_format, OF ret]
  have "threads w' = None" "\<forall>p \<in> snd ` set [(7::nat, 10::nat)]. heap w' p = None"
    by simp_all
  with ret show "\<exists>w' sched'. mono_thread_cleanup example_world ?sched = Returns (w', sched')
         \<and> threads w' = None \<and> heap w' 10 = None"
    by simp
qed

end
